theory Spec2Isabelle
  imports Complex_Main "HOL-Library.Word" "HOL-Library.Log_Nat"
begin

section \<open>Strings of the runtime\<close>

text \<open>
  A string of the form is a sequence of 16-bit code units. Literals of the source are
  ASCII and are written through \<open>js\<close>.
\<close>

type_synonym jschar = "16 word"
type_synonym jsstring = "jschar list"

definition js :: "string \<Rightarrow> jsstring" where
  "js s = map (\<lambda>c. of_nat (of_char c)) s"

section \<open>Regular expressions\<close>

text \<open>
  The two patterns of \<open>validateForm\<close> are built from character classes, sequencing
  and repetition, carry no flag and are anchored at both ends (\<open>^ ... $\<close>), so
  \<open>RegExp.test\<close> answers whether the whole string belongs to the pattern. \<open>test\<close> decides
  that by taking the derivative of the pattern by each code unit in turn; \<open>lang\<close> is the
  set of strings a pattern denotes, against which \<open>test\<close> is verified below.
\<close>

datatype rexp = Zero | One | Atom "jschar \<Rightarrow> bool" | Alt rexp rexp | Seq rexp rexp | Star rexp

text \<open>\<open>r+\<close> and \<open>r{n}\<close>.\<close>

definition Plus :: "rexp \<Rightarrow> rexp" where
  "Plus r = Seq r (Star r)"

fun Rep :: "nat \<Rightarrow> rexp \<Rightarrow> rexp" where
  "Rep 0 r = One"
| "Rep (Suc n) r = Seq r (Rep n r)"

definition Chr :: "jschar \<Rightarrow> rexp" where
  "Chr c = Atom (\<lambda>d. d = c)"

fun nullable :: "rexp \<Rightarrow> bool" where
  "nullable Zero = False"
| "nullable One = True"
| "nullable (Atom p) = False"
| "nullable (Alt r s) = (nullable r \<or> nullable s)"
| "nullable (Seq r s) = (nullable r \<and> nullable s)"
| "nullable (Star r) = True"

fun deriv :: "jschar \<Rightarrow> rexp \<Rightarrow> rexp" where
  "deriv c Zero = Zero"
| "deriv c One = Zero"
| "deriv c (Atom p) = (if p c then One else Zero)"
| "deriv c (Alt r s) = Alt (deriv c r) (deriv c s)"
| "deriv c (Seq r s) =
     (if nullable r then Alt (Seq (deriv c r) s) (deriv c s) else Seq (deriv c r) s)"
| "deriv c (Star r) = Seq (deriv c r) (Star r)"

fun test :: "rexp \<Rightarrow> jsstring \<Rightarrow> bool" where
  "test r [] = nullable r"
| "test r (c # cs) = test (deriv c r) cs"

definition conc :: "jsstring set \<Rightarrow> jsstring set \<Rightarrow> jsstring set" where
  "conc A B = {u @ v | u v. u \<in> A \<and> v \<in> B}"

inductive_set star :: "jsstring set \<Rightarrow> jsstring set" for A :: "jsstring set" where
  star_nil: "[] \<in> star A"
| star_app: "u \<in> A \<Longrightarrow> v \<in> star A \<Longrightarrow> u @ v \<in> star A"

fun lang :: "rexp \<Rightarrow> jsstring set" where
  "lang Zero = {}"
| "lang One = {[]}"
| "lang (Atom p) = {[c] | c. p c}"
| "lang (Alt r s) = lang r \<union> lang s"
| "lang (Seq r s) = conc (lang r) (lang s)"
| "lang (Star r) = star (lang r)"

text \<open>
  The character classes: \<open>\d\<close> is \<open>0\<close> to \<open>9\<close>; \<open>\s\<close> is the white space and the
  line terminators of the language (tab, line feed, vertical tab, form feed, carriage
  return, space, no-break space, U+1680, U+2000 to U+200A, U+2028, U+2029, U+202F, U+205F,
  U+3000, U+FEFF).
\<close>

definition is_digit :: "jschar \<Rightarrow> bool" where
  "is_digit c = (0x30 \<le> c \<and> c \<le> 0x39)"

definition is_space :: "jschar \<Rightarrow> bool" where
  "is_space c = (c \<in> {0x09, 0x0A, 0x0B, 0x0C, 0x0D, 0x20, 0xA0, 0x1680, 0x2028, 0x2029,
                      0x202F, 0x205F, 0x3000, 0xFEFF} \<or> (0x2000 \<le> c \<and> c \<le> 0x200A))"

definition at_sign :: jschar where
  "at_sign = 0x40"

definition full_stop :: jschar where
  "full_stop = 0x2E"

text \<open>\<open>[^\s@]\<close>\<close>

definition not_space_at :: "jschar \<Rightarrow> bool" where
  "not_space_at c = (\<not> (is_space c \<or> c = at_sign))"

text \<open>\<open>/^\d{10}$/\<close>\<close>

definition mobileRegex :: rexp where
  "mobileRegex = Rep 10 (Atom is_digit)"

text \<open>\<open>/^[^\s@]+@[^\s@]+\.[^\s@]+$/\<close>\<close>

definition emailRegex :: rexp where
  "emailRegex =
     Seq (Plus (Atom not_space_at))
       (Seq (Chr at_sign)
         (Seq (Plus (Atom not_space_at))
           (Seq (Chr full_stop) (Plus (Atom not_space_at)))))"

section \<open>Numbers of the runtime\<close>

text \<open>
  A \<open>number\<close> is an IEEE 754 binary64 value: not-a-number, an infinity, or a finite
  value, kept here as the rational it denotes. The two zeros are identified: nothing in
  the form or the tracker tells them apart (\<open>-0 > 0\<close> and \<open>-0 < 0\<close> are both false),
  and a zero divisor is taken as \<open>+0\<close>.
\<close>

datatype jsnum = NaN | PosInf | NegInf | Fin rat

text \<open>\<open>price > 0\<close>\<close>

fun gt_zero :: "jsnum \<Rightarrow> bool" where
  "gt_zero (Fin q) = (0 < q)"
| "gt_zero PosInf = True"
| "gt_zero NegInf = False"
| "gt_zero NaN = False"

text \<open>\<open>a < b\<close> and \<open>a === b\<close> on numbers: every comparison with not-a-number is false.\<close>

fun num_less :: "jsnum \<Rightarrow> jsnum \<Rightarrow> bool" where
  "num_less (Fin a) (Fin b) = (a < b)"
| "num_less (Fin a) PosInf = True"
| "num_less NegInf (Fin b) = True"
| "num_less NegInf PosInf = True"
| "num_less _ _ = False"

fun num_eq :: "jsnum \<Rightarrow> jsnum \<Rightarrow> bool" where
  "num_eq NaN _ = False"
| "num_eq _ NaN = False"
| "num_eq a b = (a = b)"

text \<open>
  Rounding of a rational to the nearest binary64 value, ties to the even significand:
  \<open>ilog2 a\<close> is the binary exponent of a positive \<open>a\<close>, the significand has 53 bits,
  exponents below \<open>-1022\<close> are subnormal, and a result of magnitude \<open>2^1024\<close> or more
  overflows to an infinity.
\<close>

definition pow2 :: "int \<Rightarrow> rat" where
  "pow2 e = (if 0 \<le> e then 2 ^ nat e else 1 / 2 ^ nat (- e))"

definition round_even :: "rat \<Rightarrow> int" where
  "round_even x =
     (let n = \<lfloor>x\<rfloor>; r = x - of_int n
      in if r < 1 / 2 then n else if 1 / 2 < r then n + 1 else if even n then n else n + 1)"

definition ilog2 :: "rat \<Rightarrow> int" where
  "ilog2 a =
     (if 1 \<le> a then int (floorlog 2 (nat \<lfloor>a\<rfloor>)) - 1
      else - int (floorlog 2 (nat (\<lceil>1 / a\<rceil> - 1))))"

definition round_to :: "int \<Rightarrow> rat \<Rightarrow> rat" where
  "round_to e a = of_int (round_even (a / pow2 (e - 52))) * pow2 (e - 52)"

definition fl :: "rat \<Rightarrow> jsnum" where
  "fl q =
     (if q = 0 then Fin 0
      else
        let r = round_to (max (ilog2 \<bar>q\<bar>) (- 1022)) \<bar>q\<bar>
        in if pow2 1024 \<le> r then (if q < 0 then NegInf else PosInf)
           else Fin (if q < 0 then - r else r))"

text \<open>\<open>a / b\<close>, \<open>a * b\<close> and \<open>Math.round\<close> (nearest integer, a tie goes up).\<close>

fun fdiv :: "jsnum \<Rightarrow> jsnum \<Rightarrow> jsnum" where
  "fdiv (Fin a) (Fin b) =
     (if b = 0 then (if a = 0 then NaN else if 0 < a then PosInf else NegInf) else fl (a / b))"
| "fdiv (Fin a) PosInf = Fin 0"
| "fdiv (Fin a) NegInf = Fin 0"
| "fdiv PosInf (Fin b) = (if b < 0 then NegInf else PosInf)"
| "fdiv NegInf (Fin b) = (if b < 0 then PosInf else NegInf)"
| "fdiv _ _ = NaN"

fun fmul :: "jsnum \<Rightarrow> jsnum \<Rightarrow> jsnum" where
  "fmul (Fin a) (Fin b) = fl (a * b)"
| "fmul (Fin a) PosInf = (if a = 0 then NaN else if 0 < a then PosInf else NegInf)"
| "fmul (Fin a) NegInf = (if a = 0 then NaN else if 0 < a then NegInf else PosInf)"
| "fmul PosInf (Fin b) = (if b = 0 then NaN else if 0 < b then PosInf else NegInf)"
| "fmul NegInf (Fin b) = (if b = 0 then NaN else if 0 < b then NegInf else PosInf)"
| "fmul PosInf PosInf = PosInf"
| "fmul PosInf NegInf = NegInf"
| "fmul NegInf PosInf = NegInf"
| "fmul NegInf NegInf = PosInf"
| "fmul _ _ = NaN"

fun Math_round :: "jsnum \<Rightarrow> jsnum" where
  "Math_round (Fin x) = Fin (of_int \<lfloor>x + 1 / 2\<rfloor>)"
| "Math_round v = v"

subsection \<open>\<open>Number(value)\<close> on a string\<close>

text \<open>
  The conversion trims white space, reads the empty string as \<open>0\<close>, and otherwise
  accepts a binary, octal or hexadecimal integer with its \<open>0b\<close>, \<open>0o\<close>, \<open>0x\<close> prefix
  and no sign, or an optionally signed \<open>Infinity\<close> or decimal literal (digits, an optional
  fraction, an optional exponent); any other text is not-a-number. The value read is
  rounded to binary64.
\<close>

definition trim :: "jsstring \<Rightarrow> jsstring" where
  "trim s = rev (dropWhile is_space (rev (dropWhile is_space s)))"

definition is_hex :: "jschar \<Rightarrow> bool" where
  "is_hex c = (is_digit c \<or> (0x41 \<le> c \<and> c \<le> 0x46) \<or> (0x61 \<le> c \<and> c \<le> 0x66))"

definition is_octal :: "jschar \<Rightarrow> bool" where
  "is_octal c = (0x30 \<le> c \<and> c \<le> 0x37)"

definition is_binary :: "jschar \<Rightarrow> bool" where
  "is_binary c = (c = 0x30 \<or> c = 0x31)"

definition digit_value :: "jschar \<Rightarrow> nat" where
  "digit_value c =
     (if is_digit c then unat c - 48 else if c \<le> 0x46 then unat c - 55 else unat c - 87)"

definition digits_value :: "nat \<Rightarrow> jsstring \<Rightarrow> nat" where
  "digits_value b ds = foldl (\<lambda>n c. b * n + digit_value c) 0 ds"

definition radix_literal :: "jsstring \<Rightarrow> nat option" where
  "radix_literal t =
     (case t of
        c0 # c1 # ds \<Rightarrow>
          if c0 = 0x30 \<and> ds \<noteq> [] then
            if (c1 = 0x78 \<or> c1 = 0x58) \<and> list_all is_hex ds then Some (digits_value 16 ds)
            else if (c1 = 0x6F \<or> c1 = 0x4F) \<and> list_all is_octal ds then Some (digits_value 8 ds)
            else if (c1 = 0x62 \<or> c1 = 0x42) \<and> list_all is_binary ds then Some (digits_value 2 ds)
            else None
          else None
      | _ \<Rightarrow> None)"

definition exponent_part :: "jsstring \<Rightarrow> int option" where
  "exponent_part r =
     (case r of
        [] \<Rightarrow> Some 0
      | c # ds \<Rightarrow>
          if c = 0x65 \<or> c = 0x45 then
            (let neg = (ds \<noteq> [] \<and> hd ds = 0x2D);
                 ds' = (if ds \<noteq> [] \<and> (hd ds = 0x2D \<or> hd ds = 0x2B) then tl ds else ds)
             in if ds' \<noteq> [] \<and> list_all is_digit ds'
                then Some (if neg then - int (digits_value 10 ds') else int (digits_value 10 ds'))
                else None)
          else None)"

definition pow10 :: "int \<Rightarrow> rat" where
  "pow10 e = (if 0 \<le> e then 10 ^ nat e else 1 / 10 ^ nat (- e))"

definition unsigned_decimal :: "jsstring \<Rightarrow> rat option" where
  "unsigned_decimal s =
     (let ip = takeWhile is_digit s;
          r1 = dropWhile is_digit s;
          dot = (r1 \<noteq> [] \<and> hd r1 = full_stop);
          fp = (if dot then takeWhile is_digit (tl r1) else []);
          r2 = (if dot then dropWhile is_digit (tl r1) else r1)
      in if ip = [] \<and> fp = [] then None
         else (case exponent_part r2 of
                 None \<Rightarrow> None
               | Some e \<Rightarrow>
                   Some ((of_nat (digits_value 10 ip) + of_nat (digits_value 10 fp) / 10 ^ length fp)
                         * pow10 e)))"

definition Number_js :: "jsstring \<Rightarrow> jsnum" where
  "Number_js s =
     (let t = trim s
      in if t = [] then Fin 0
         else (case radix_literal t of
                 Some n \<Rightarrow> fl (of_nat n)
               | None \<Rightarrow>
                   (let neg = (hd t = 0x2D);
                        body = (if hd t = 0x2D \<or> hd t = 0x2B then tl t else t)
                    in if body = js ''Infinity'' then (if neg then NegInf else PosInf)
                       else (case unsigned_decimal body of
                               None \<Rightarrow> NaN
                             | Some q \<Rightarrow> fl (if neg then - q else q)))))"

section \<open>The listing form: data\<close>

text \<open>
  \<open>SharingType\<close> is an object indexed by strings whose values are a number or
  \<open>null\<close> (\<open>None\<close>): a list of its properties. \<open>AmenitiesType\<close> and \<open>FormData\<close>
  are the two interfaces of the component, field by field; \<open>images\<close> is a
  \<open>FileList\<close> or \<open>null\<close>, and a file is a handle the form never looks into.
\<close>

type_synonym SharingType = "(jsstring \<times> jsnum option) list"

record AmenitiesType =
  wifi :: bool
  washingMachine :: bool
  biometric :: bool
  ac :: bool
  gym :: bool
  powerBackup :: bool
  geyser :: bool
  roWater :: bool
  parking :: bool
  housekeeping :: bool

datatype File = Blob nat

record FormData =
  pgName :: jsstring
  address :: jsstring
  googleMapsLink :: jsstring
  pgType :: jsstring
  preferredTenants :: jsstring
  ownerName :: jsstring
  primaryMobile :: jsstring
  secondaryMobile :: jsstring
  whatsappNumber :: jsstring
  email :: jsstring
  sharingPrices :: SharingType
  deposit :: jsstring
  refundPolicy :: jsstring
  noticePeriod :: jsstring
  amenities :: AmenitiesType
  bathroomType :: jsstring
  otherAmenities :: jsstring
  images :: "File list option"
  videoLink :: jsstring

text \<open>
  What a handler does besides updating the state: a notification, the scroll to the top
  of the window, \<open>preventDefault\<close> on the submit event, a line on the console. The
  state of the component is the record, the \<open>showPreview\<close> flag and, here, the
  effects performed so far, in order.
\<close>

record toast =
  title :: jsstring
  description :: jsstring
  variant :: "jsstring option"

datatype effect = Toast toast | ScrollTo int int | PreventDefault | ConsoleLog FormData

record State =
  formData :: FormData
  showPreview :: bool
  effects :: "effect list"

text \<open>The initial values given to \<open>useState\<close>.\<close>

definition initialFormData :: FormData where
  "initialFormData = \<lparr>
     pgName = [], address = [], googleMapsLink = [], pgType = js ''co-living'',
     preferredTenants = js ''anyone'', ownerName = [], primaryMobile = [],
     secondaryMobile = [], whatsappNumber = [], email = [],
     sharingPrices = [(js ''1'', None), (js ''2'', None), (js ''3'', None),
                      (js ''4'', None), (js ''5'', None)],
     deposit = [], refundPolicy = [], noticePeriod = [],
     amenities = \<lparr> wifi = False, washingMachine = False, biometric = False, ac = False,
       gym = False, powerBackup = False, geyser = False, roWater = False, parking = False,
       housekeeping = False \<rparr>,
     bathroomType = js ''attached'', otherAmenities = [], images = None, videoLink = [] \<rparr>"

definition initialState :: State where
  "initialState = \<lparr> formData = initialFormData, showPreview = False, effects = [] \<rparr>"

text \<open>
  \<open>str_key\<close> lists the keys of \<open>FormData\<close> that hold a string. The \<open>name\<close> of
  every input wired to \<open>handleInputChange\<close> and the three names passed to
  \<open>handleRadioChange\<close> are among them, and \<open>requiredFields\<close> names five of them.
  \<open>get_str d k\<close> is \<open>d[k]\<close> and \<open>set_str k v d\<close> is \<open>{...d, [k]: v}\<close>.
\<close>

datatype str_key = K_pgName | K_address | K_googleMapsLink | K_pgType | K_preferredTenants
  | K_ownerName | K_primaryMobile | K_secondaryMobile | K_whatsappNumber | K_email
  | K_deposit | K_refundPolicy | K_noticePeriod | K_bathroomType | K_otherAmenities
  | K_videoLink

fun key_name :: "str_key \<Rightarrow> string" where
  "key_name K_pgName = ''pgName''"
| "key_name K_address = ''address''"
| "key_name K_googleMapsLink = ''googleMapsLink''"
| "key_name K_pgType = ''pgType''"
| "key_name K_preferredTenants = ''preferredTenants''"
| "key_name K_ownerName = ''ownerName''"
| "key_name K_primaryMobile = ''primaryMobile''"
| "key_name K_secondaryMobile = ''secondaryMobile''"
| "key_name K_whatsappNumber = ''whatsappNumber''"
| "key_name K_email = ''email''"
| "key_name K_deposit = ''deposit''"
| "key_name K_refundPolicy = ''refundPolicy''"
| "key_name K_noticePeriod = ''noticePeriod''"
| "key_name K_bathroomType = ''bathroomType''"
| "key_name K_otherAmenities = ''otherAmenities''"
| "key_name K_videoLink = ''videoLink''"

fun get_str :: "FormData \<Rightarrow> str_key \<Rightarrow> jsstring" where
  "get_str d K_pgName = pgName d"
| "get_str d K_address = address d"
| "get_str d K_googleMapsLink = googleMapsLink d"
| "get_str d K_pgType = pgType d"
| "get_str d K_preferredTenants = preferredTenants d"
| "get_str d K_ownerName = ownerName d"
| "get_str d K_primaryMobile = primaryMobile d"
| "get_str d K_secondaryMobile = secondaryMobile d"
| "get_str d K_whatsappNumber = whatsappNumber d"
| "get_str d K_email = email d"
| "get_str d K_deposit = deposit d"
| "get_str d K_refundPolicy = refundPolicy d"
| "get_str d K_noticePeriod = noticePeriod d"
| "get_str d K_bathroomType = bathroomType d"
| "get_str d K_otherAmenities = otherAmenities d"
| "get_str d K_videoLink = videoLink d"

fun set_str :: "str_key \<Rightarrow> jsstring \<Rightarrow> FormData \<Rightarrow> FormData" where
  "set_str K_pgName v d = d\<lparr>pgName := v\<rparr>"
| "set_str K_address v d = d\<lparr>address := v\<rparr>"
| "set_str K_googleMapsLink v d = d\<lparr>googleMapsLink := v\<rparr>"
| "set_str K_pgType v d = d\<lparr>pgType := v\<rparr>"
| "set_str K_preferredTenants v d = d\<lparr>preferredTenants := v\<rparr>"
| "set_str K_ownerName v d = d\<lparr>ownerName := v\<rparr>"
| "set_str K_primaryMobile v d = d\<lparr>primaryMobile := v\<rparr>"
| "set_str K_secondaryMobile v d = d\<lparr>secondaryMobile := v\<rparr>"
| "set_str K_whatsappNumber v d = d\<lparr>whatsappNumber := v\<rparr>"
| "set_str K_email v d = d\<lparr>email := v\<rparr>"
| "set_str K_deposit v d = d\<lparr>deposit := v\<rparr>"
| "set_str K_refundPolicy v d = d\<lparr>refundPolicy := v\<rparr>"
| "set_str K_noticePeriod v d = d\<lparr>noticePeriod := v\<rparr>"
| "set_str K_bathroomType v d = d\<lparr>bathroomType := v\<rparr>"
| "set_str K_otherAmenities v d = d\<lparr>otherAmenities := v\<rparr>"
| "set_str K_videoLink v d = d\<lparr>videoLink := v\<rparr>"

text \<open>
  \<open>amenity_key\<close> is \<open>keyof AmenitiesType\<close>, the ten names the check boxes pass to
  \<open>handleCheckboxChange\<close>.
\<close>

datatype amenity_key = A_wifi | A_washingMachine | A_biometric | A_ac | A_gym | A_powerBackup
  | A_geyser | A_roWater | A_parking | A_housekeeping

fun get_amenity :: "AmenitiesType \<Rightarrow> amenity_key \<Rightarrow> bool" where
  "get_amenity a A_wifi = wifi a"
| "get_amenity a A_washingMachine = washingMachine a"
| "get_amenity a A_biometric = biometric a"
| "get_amenity a A_ac = ac a"
| "get_amenity a A_gym = gym a"
| "get_amenity a A_powerBackup = powerBackup a"
| "get_amenity a A_geyser = geyser a"
| "get_amenity a A_roWater = roWater a"
| "get_amenity a A_parking = parking a"
| "get_amenity a A_housekeeping = housekeeping a"

fun set_amenity :: "amenity_key \<Rightarrow> bool \<Rightarrow> AmenitiesType \<Rightarrow> AmenitiesType" where
  "set_amenity A_wifi b a = a\<lparr>wifi := b\<rparr>"
| "set_amenity A_washingMachine b a = a\<lparr>washingMachine := b\<rparr>"
| "set_amenity A_biometric b a = a\<lparr>biometric := b\<rparr>"
| "set_amenity A_ac b a = a\<lparr>ac := b\<rparr>"
| "set_amenity A_gym b a = a\<lparr>gym := b\<rparr>"
| "set_amenity A_powerBackup b a = a\<lparr>powerBackup := b\<rparr>"
| "set_amenity A_geyser b a = a\<lparr>geyser := b\<rparr>"
| "set_amenity A_roWater b a = a\<lparr>roWater := b\<rparr>"
| "set_amenity A_parking b a = a\<lparr>parking := b\<rparr>"
| "set_amenity A_housekeeping b a = a\<lparr>housekeeping := b\<rparr>"

text \<open>
  \<open>{...obj, [k]: v}\<close> on an object indexed by strings: the value of an existing
  property is replaced where it stands, a new property is added. \<open>Object.values\<close>
  lists the values; the only use made of it, \<open>some\<close>, does not depend on their order.
\<close>

fun obj_set :: "'k \<Rightarrow> 'v \<Rightarrow> ('k \<times> 'v) list \<Rightarrow> ('k \<times> 'v) list" where
  "obj_set k v [] = [(k, v)]"
| "obj_set k v ((k', v') # ps) = (if k' = k then (k, v) # ps else (k', v') # obj_set k v ps)"

definition Object_values :: "('k \<times> 'v) list \<Rightarrow> 'v list" where
  "Object_values obj = map snd obj"

section \<open>The listing form: handlers\<close>

text \<open>
  Each handler that calls \<open>setFormData\<close> with an updater is the function from the
  previous record to the next one.
\<close>

definition handleInputChange :: "str_key \<Rightarrow> jsstring \<Rightarrow> FormData \<Rightarrow> FormData" where
  "handleInputChange name val prev = set_str name val prev"

definition handleRadioChange :: "str_key \<Rightarrow> jsstring \<Rightarrow> FormData \<Rightarrow> FormData" where
  "handleRadioChange name val prev = set_str name val prev"

definition handleCheckboxChange :: "amenity_key \<Rightarrow> FormData \<Rightarrow> FormData" where
  "handleCheckboxChange name prev =
     prev\<lparr>amenities := set_amenity name (\<not> get_amenity (amenities prev) name) (amenities prev)\<rparr>"

definition handleSharingPriceChange :: "jsstring \<Rightarrow> jsstring \<Rightarrow> FormData \<Rightarrow> FormData" where
  "handleSharingPriceChange key val prev =
     (let numValue = (if val = [] then None else Some (Number_js val))
      in prev\<lparr>sharingPrices := obj_set key numValue (sharingPrices prev)\<rparr>)"

text \<open>
  \<open>handleImageChange\<close> receives \<open>e.target.files\<close> and, unlike the handlers above,
  may notify instead of updating.
\<close>

definition image_error :: toast where
  "image_error = \<lparr> title = js ''Image Upload Error'',
     description = js ''Please select between 1 and 10 images.'',
     variant = Some (js ''destructive'') \<rparr>"

definition handleImageChange :: "File list option \<Rightarrow> State \<Rightarrow> State" where
  "handleImageChange files st =
     (case files of
        Some fs \<Rightarrow>
          if length fs > 0 \<and> length fs \<le> 10
          then st\<lparr>formData := (formData st)\<lparr>images := files\<rparr>\<rparr>
          else st\<lparr>effects := effects st @ [Toast image_error]\<rparr>
      | None \<Rightarrow> st\<lparr>effects := effects st @ [Toast image_error]\<rparr>)"


section \<open>The listing form: validation and submission\<close>

text \<open>
  The message for a missing field is made from its name:
  \<open>field.replace(/([A-Z])/g, ' $1').replace(/^./, str => str.toUpperCase())\<close> puts a
  space before every capital letter and turns the first character, unless it is a line
  terminator, into upper case. Upper case is spelled out for ASCII, which holds every name
  in \<open>requiredFields\<close>.
\<close>

definition is_upper :: "jschar \<Rightarrow> bool" where
  "is_upper c = (0x41 \<le> c \<and> c \<le> 0x5A)"

definition is_lower :: "jschar \<Rightarrow> bool" where
  "is_lower c = (0x61 \<le> c \<and> c \<le> 0x7A)"

definition is_line_terminator :: "jschar \<Rightarrow> bool" where
  "is_line_terminator c = (c \<in> {0x0A, 0x0D, 0x2028, 0x2029})"

fun space_capitals :: "jsstring \<Rightarrow> jsstring" where
  "space_capitals [] = []"
| "space_capitals (c # cs) =
     (if is_upper c then 0x20 # c # space_capitals cs else c # space_capitals cs)"

definition toUpperCase1 :: "jschar \<Rightarrow> jschar" where
  "toUpperCase1 c = (if is_lower c then c - 0x20 else c)"

fun upper_first :: "jsstring \<Rightarrow> jsstring" where
  "upper_first [] = []"
| "upper_first (c # cs) = (if is_line_terminator c then c # cs else toUpperCase1 c # cs)"

definition validation_error :: "jsstring \<Rightarrow> toast" where
  "validation_error msg = \<lparr> title = js ''Validation Error'', description = msg,
     variant = Some (js ''destructive'') \<rparr>"

definition required_error :: "str_key \<Rightarrow> toast" where
  "required_error field =
     validation_error (upper_first (space_capitals (js (key_name field))) @ js '' is required'')"

text \<open>
  \<open>validateForm\<close> returns its boolean together with the notifications it sent. The
  loop over \<open>requiredFields\<close> stops at the first field whose value is falsy, which
  for a string means empty.
\<close>

definition requiredFields :: "str_key list" where
  "requiredFields = [K_pgName, K_address, K_ownerName, K_primaryMobile, K_email]"

fun required_loop :: "str_key list \<Rightarrow> FormData \<Rightarrow> toast option" where
  "required_loop [] d = None"
| "required_loop (field # rest) d =
     (if get_str d field = [] then Some (required_error field) else required_loop rest d)"

definition hasPrice :: "SharingType \<Rightarrow> bool" where
  "hasPrice prices =
     list_ex (\<lambda>price. case price of None \<Rightarrow> False | Some n \<Rightarrow> gt_zero n) (Object_values prices)"

definition validateForm :: "FormData \<Rightarrow> bool \<times> effect list" where
  "validateForm d =
     (case required_loop requiredFields d of
        Some t \<Rightarrow> (False, [Toast t])
      | None \<Rightarrow>
          if \<not> test mobileRegex (primaryMobile d) then
            (False, [Toast (validation_error (js ''Primary mobile number must be 10 digits''))])
          else if \<not> test emailRegex (email d) then
            (False, [Toast (validation_error (js ''Please enter a valid email address''))])
          else if \<not> hasPrice (sharingPrices d) then
            (False, [Toast (validation_error (js ''Enter at least one sharing option price''))])
          else (case images d of
              None \<Rightarrow> (False, [Toast (validation_error (js ''Please upload at least one image''))])
            | Some fs \<Rightarrow>
                if length fs = 0 then
                  (False, [Toast (validation_error (js ''Please upload at least one image''))])
                else (True, [])))"

definition handleSubmit :: "State \<Rightarrow> State" where
  "handleSubmit st =
     (let st1 = st\<lparr>effects := effects st @ [PreventDefault]\<rparr>;
          (ok, msgs) = validateForm (formData st1)
      in if ok then st1\<lparr>showPreview := True, effects := effects st1 @ msgs @ [ScrollTo 0 0]\<rparr>
         else st1\<lparr>effects := effects st1 @ msgs\<rparr>)"

text \<open>The "Edit Listing" button: \<open>setShowPreview(false)\<close>.\<close>

definition editListing :: "State \<Rightarrow> State" where
  "editListing st = st\<lparr>showPreview := False\<rparr>"

definition post_success :: toast where
  "post_success = \<lparr> title = js ''Success!'',
     description = js ''Your PG listing has been posted successfully.'', variant = None \<rparr>"

definition handlePost :: "State \<Rightarrow> State" where
  "handlePost st = st\<lparr>effects := effects st @ [Toast post_success, ConsoleLog (formData st)]\<rparr>"

section \<open>Sessions\<close>

text \<open>
  An event is one call of a handler by the rendered form; a session is a list of events
  applied to the initial state. The sharing price inputs are made by
  \<open>[1, 2, 3, 4, 5].map\<close> and pass \<open>num.toString()\<close> as the key: \<open>form_event\<close>
  holds of the events the markup can produce.
\<close>

datatype event =
    InputChange str_key jsstring
  | RadioChange str_key jsstring
  | CheckboxChange amenity_key
  | SharingPriceChange jsstring jsstring
  | ImageChange "File list option"
  | Submit
  | EditListing
  | Post

fun step :: "State \<Rightarrow> event \<Rightarrow> State" where
  "step st (InputChange name val) = st\<lparr>formData := handleInputChange name val (formData st)\<rparr>"
| "step st (RadioChange name val) = st\<lparr>formData := handleRadioChange name val (formData st)\<rparr>"
| "step st (CheckboxChange name) = st\<lparr>formData := handleCheckboxChange name (formData st)\<rparr>"
| "step st (SharingPriceChange key val) =
     st\<lparr>formData := handleSharingPriceChange key val (formData st)\<rparr>"
| "step st (ImageChange files) = handleImageChange files st"
| "step st Submit = handleSubmit st"
| "step st EditListing = editListing st"
| "step st Post = handlePost st"

definition run :: "event list \<Rightarrow> State \<Rightarrow> State" where
  "run evs st = foldl step st evs"

definition sharing_keys :: "jsstring list" where
  "sharing_keys = map js [''1'', ''2'', ''3'', ''4'', ''5'']"

fun form_event :: "event \<Rightarrow> bool" where
  "form_event (SharingPriceChange key val) = (key \<in> set sharing_keys)"
| "form_event _ = True"

section \<open>The progress tracker\<close>

text \<open>
  The component takes \<open>currentStep\<close>, \<open>totalSteps\<close> and the optional \<open>labels\<close>
  (absent means the empty array; \<open>className\<close> only styles the outer element). It
  renders a row, which holds one marker per label or else the three spans
  \<open>Start\<close>, \<open>${progress}%\<close>, \<open>Complete\<close>, and under it the bar of value \<open>progress\<close>.
  A marker shows \<open>index + 1\<close> and its label; its circle is filled (\<open>Completed\<close>) when
  \<open>index < currentStep\<close>, outlined (\<open>Current\<close>) when \<open>index === currentStep\<close>, and grey
  (\<open>Pending\<close>) otherwise.
\<close>

record ProgressTrackerProps =
  currentStep :: jsnum
  totalSteps :: jsnum
  labels :: "jsstring list option"

datatype marker_style = Completed | Current | Pending

record marker =
  m_number :: nat
  m_label :: jsstring
  m_style :: marker_style
  m_emphasis :: bool

datatype span = Text jsstring | Percent jsnum

datatype row = Markers "marker list" | Spans "span list"

record rendering =
  top_row :: row
  bar_value :: jsnum

definition progress :: "jsnum \<Rightarrow> jsnum \<Rightarrow> jsnum" where
  "progress cs ts = Math_round (fmul (fdiv cs ts) (Fin 100))"

definition marker_class :: "nat \<Rightarrow> jsnum \<Rightarrow> marker_style" where
  "marker_class index cs =
     (if num_less (Fin (of_nat index)) cs then Completed
      else if num_eq (Fin (of_nat index)) cs then Current
      else Pending)"

definition render_marker :: "jsnum \<Rightarrow> nat \<times> jsstring \<Rightarrow> marker" where
  "render_marker cs p =
     \<lparr> m_number = fst p + 1, m_label = snd p, m_style = marker_class (fst p) cs,
       m_emphasis = num_less (Fin (of_nat (fst p))) cs \<rparr>"

definition ProgressTracker :: "ProgressTrackerProps \<Rightarrow> rendering" where
  "ProgressTracker props =
     (let ls = (case labels props of None \<Rightarrow> [] | Some l \<Rightarrow> l);
          pr = progress (currentStep props) (totalSteps props)
      in \<lparr> top_row =
             (if length ls \<noteq> 0 then Markers (map (render_marker (currentStep props)) (enumerate 0 ls))
              else Spans [Text (js ''Start''), Percent pr, Text (js ''Complete'')]),
           bar_value = pr \<rparr>)"

section \<open>The stated behaviour\<close>

text \<open>
  The rules of validation as the specification words them: the five required values are
  non-empty; the mobile number is ten decimal digits; the e-mail address has no white
  space, exactly one \<open>@\<close> with text before it, and after the \<open>@\<close> a \<open>.\<close> with text on
  both sides; some sharing price is a number greater than zero; there is an image.
  \<open>validate_spec\<close> is the message of the first rule that fails, in the stated order.
\<close>

definition required_present :: "FormData \<Rightarrow> bool" where
  "required_present d =
     (pgName d \<noteq> [] \<and> address d \<noteq> [] \<and> ownerName d \<noteq> [] \<and> primaryMobile d \<noteq> [] \<and> email d \<noteq> [])"

definition ten_digits :: "jsstring \<Rightarrow> bool" where
  "ten_digits s = (length s = 10 \<and> (\<forall>c\<in>set s. is_digit c))"

definition email_shape :: "jsstring \<Rightarrow> bool" where
  "email_shape s =
     ((\<forall>c\<in>set s. \<not> is_space c) \<and>
      count_list s at_sign = 1 \<and>
      takeWhile (\<lambda>c. c \<noteq> at_sign) s \<noteq> [] \<and>
      (let d = tl (dropWhile (\<lambda>c. c \<noteq> at_sign) s)
       in \<exists>i\<in>{1 ..< length d - 1}. d ! i = full_stop))"

definition some_positive_price :: "SharingType \<Rightarrow> bool" where
  "some_positive_price prices = (\<exists>(k, v)\<in>set prices. \<exists>n. v = Some n \<and> gt_zero n)"

definition has_image :: "FormData \<Rightarrow> bool" where
  "has_image d = (\<exists>fs. images d = Some fs \<and> fs \<noteq> [])"

definition validate_spec :: "FormData \<Rightarrow> jsstring option" where
  "validate_spec d =
     (if pgName d = [] then Some (js ''Pg Name is required'')
      else if address d = [] then Some (js ''Address is required'')
      else if ownerName d = [] then Some (js ''Owner Name is required'')
      else if primaryMobile d = [] then Some (js ''Primary Mobile is required'')
      else if email d = [] then Some (js ''Email is required'')
      else if \<not> ten_digits (primaryMobile d) then Some (js ''Primary mobile number must be 10 digits'')
      else if \<not> email_shape (email d) then Some (js ''Please enter a valid email address'')
      else if \<not> some_positive_price (sharingPrices d) then Some (js ''Enter at least one sharing option price'')
      else if \<not> has_image d then Some (js ''Please upload at least one image'')
      else None)"

text \<open>
  A sharing price "is an amount" when it is a non-negative integer; \<open>price_inputs\<close> are
  the texts typed into the sharing price inputs during a session.
\<close>

definition is_amount :: "jsnum \<Rightarrow> bool" where
  "is_amount v = (case v of Fin q \<Rightarrow> 0 \<le> q \<and> of_int \<lfloor>q\<rfloor> = q | _ \<Rightarrow> False)"

definition prices_are_amounts :: "FormData \<Rightarrow> bool" where
  "prices_are_amounts d =
     list_all (\<lambda>v. case v of None \<Rightarrow> True | Some n \<Rightarrow> is_amount n) (Object_values (sharingPrices d))"

fun price_inputs :: "event list \<Rightarrow> jsstring list" where
  "price_inputs [] = []"
| "price_inputs (SharingPriceChange key val # evs) = val # price_inputs evs"
| "price_inputs (_ # evs) = price_inputs evs"

text \<open>
  A stored price is \<open>parsed_from\<close> the typed texts when it is \<open>null\<close> or the number
  read from one of them that was not empty.
\<close>

definition parsed_from :: "jsstring list \<Rightarrow> jsnum option \<Rightarrow> bool" where
  "parsed_from raws v = (v = None \<or> (\<exists>raw\<in>set raws. raw \<noteq> [] \<and> v = Some (Number_js raw)))"

text \<open>The nearest integer in exact arithmetic, a tie going up.\<close>

definition nearest_int :: "rat \<Rightarrow> int" where
  "nearest_int x = \<lfloor>x + 1 / 2\<rfloor>"

text \<open>A record that passes validation, and the editing state that holds it.\<close>

definition sampleFormData :: FormData where
  "sampleFormData = initialFormData\<lparr>
     pgName := js ''Comfort Stay PG'', address := js ''12 Lake Road'',
     ownerName := js ''Asha Rao'', primaryMobile := js ''9876543210'', email := js ''a@b.com'',
     sharingPrices := obj_set (js ''2'') (Some (Fin 5000)) (sharingPrices initialFormData),
     images := Some [Blob 0] \<rparr>"

definition sampleState :: State where
  "sampleState = \<lparr> formData = sampleFormData, showPreview = False, effects = [] \<rparr>"

text \<open>A session that types a price, ticks a box, types a negative price and clears one.\<close>

definition sampleSession :: "event list" where
  "sampleSession = [SharingPriceChange (js ''2'') (js ''5000''), CheckboxChange A_wifi,
     SharingPriceChange (js ''1'') (js ''-5''), SharingPriceChange (js ''2'') [], Submit]"

text \<open>The tracker at step 2 of 4 with four labels.\<close>

definition sampleProps :: ProgressTrackerProps where
  "sampleProps = \<lparr> currentStep = Fin 2, totalSteps = Fin 4,
     labels = Some (map js [''A'', ''B'', ''C'', ''D'']) \<rparr>"

text \<open>The non-empty strings over \<open>[^\s@]\<close>.\<close>

definition atoms :: "jsstring set" where
  "atoms = {w. w \<noteq> [] \<and> (\<forall>c\<in>set w. not_space_at c)}"

section \<open>The matcher decides the language of a pattern\<close>

lemma nullable_lang: "nullable r \<longleftrightarrow> [] \<in> lang r"
  by (induction r) (auto simp: conc_def intro: star.intros)

lemma star_cons_split:
  assumes "w \<in> star A" and "w = c # x"
  shows "\<exists>u v. x = u @ v \<and> c # u \<in> A \<and> v \<in> star A"
  using assms
proof (induction arbitrary: x rule: star.induct)
  case star_nil
  then show ?case by simp
next
  case (star_app u v)
  show ?case
  proof (cases u)
    case Nil
    with star_app show ?thesis by simp
  next
    case (Cons d u')
    with star_app.prems have "d = c" and "x = u' @ v" by simp_all
    with Cons star_app.hyps show ?thesis by blast
  qed
qed

lemma lang_deriv: "lang (deriv c r) = {w. c # w \<in> lang r}"
proof (induction r)
  case (Seq r s)
  have "{w. c # w \<in> conc (lang r) (lang s)} =
        conc {w. c # w \<in> lang r} (lang s) \<union> (if [] \<in> lang r then {w. c # w \<in> lang s} else {})"
    by (auto simp: conc_def Cons_eq_append_conv)
  with Seq show ?case by (simp add: nullable_lang conc_def)
next
  case (Star r)
  have "{w. c # w \<in> star (lang r)} = conc {w. c # w \<in> lang r} (star (lang r))"
  proof (intro set_eqI iffI)
    fix x assume "x \<in> {w. c # w \<in> star (lang r)}"
    then show "x \<in> conc {w. c # w \<in> lang r} (star (lang r))"
      using star_cons_split [of "c # x" "lang r" c x] by (auto simp: conc_def)
  next
    fix x assume "x \<in> conc {w. c # w \<in> lang r} (star (lang r))"
    then obtain u v where "x = u @ v" "c # u \<in> lang r" "v \<in> star (lang r)"
      by (auto simp: conc_def)
    then show "x \<in> {w. c # w \<in> star (lang r)}"
      using star_app [of "c # u" "lang r" v] by simp
  qed
  with Star show ?case by (simp add: conc_def)
qed auto

lemma test_lang: "test r s \<longleftrightarrow> s \<in> lang r"
  by (induction s arbitrary: r) (simp_all add: nullable_lang lang_deriv)

lemma conc_Atom: "w \<in> conc {[c] | c. p c} B \<longleftrightarrow> (\<exists>c v. w = c # v \<and> p c \<and> v \<in> B)"
proof
  assume "w \<in> conc {[c] | c. p c} B"
  then show "\<exists>c v. w = c # v \<and> p c \<and> v \<in> B" by (auto simp: conc_def)
next
  assume "\<exists>c v. w = c # v \<and> p c \<and> v \<in> B"
  then obtain c v where "w = [c] @ v" "p c" "v \<in> B" by auto
  then show "w \<in> conc {[c] | c. p c} B" unfolding conc_def by blast
qed

lemma lang_Rep_Atom: "lang (Rep n (Atom p)) = {w. length w = n \<and> (\<forall>c\<in>set w. p c)}"
proof (induction n)
  case 0
  then show ?case by auto
next
  case (Suc n)
  have "w \<in> lang (Rep (Suc n) (Atom p)) \<longleftrightarrow> length w = Suc n \<and> (\<forall>c\<in>set w. p c)" for w
    by (cases w) (simp_all add: conc_Atom Suc, auto)
  then show ?case by blast
qed

lemma lang_Star_Atom: "lang (Star (Atom p)) = {w. \<forall>c\<in>set w. p c}"
proof (intro set_eqI iffI)
  fix w assume "w \<in> lang (Star (Atom p))"
  then have "w \<in> star {[c] | c. p c}" by simp
  then have "\<forall>c\<in>set w. p c" by (induction rule: star.induct) auto
  then show "w \<in> {w. \<forall>c\<in>set w. p c}" by simp
next
  fix w assume "w \<in> {w. \<forall>c\<in>set w. p c}"
  then have "w \<in> star {[c] | c. p c}"
  proof (induction w)
    case Nil
    show ?case by (rule star_nil)
  next
    case (Cons a w)
    then have "[a] \<in> {[c] | c. p c}" and "w \<in> star {[c] | c. p c}" by simp_all
    then have "[a] @ w \<in> star {[c] | c. p c}" by (rule star_app)
    then show ?case by simp
  qed
  then show "w \<in> lang (Star (Atom p))" by simp
qed

lemma lang_Plus_Atom: "lang (Plus (Atom p)) = {w. w \<noteq> [] \<and> (\<forall>c\<in>set w. p c)}"
proof -
  have "lang (Plus (Atom p)) = conc {[c] | c. p c} {w. \<forall>c\<in>set w. p c}"
    using lang_Star_Atom [of p] by (simp add: Plus_def)
  then have "w \<in> lang (Plus (Atom p)) \<longleftrightarrow> w \<noteq> [] \<and> (\<forall>c\<in>set w. p c)" for w
    by (cases w) (auto simp: conc_Atom)
  then show ?thesis by blast
qed

lemma lang_Chr_Seq: "w \<in> lang (Seq (Chr a) r) \<longleftrightarrow> (\<exists>v. w = a # v \<and> v \<in> lang r)"
  unfolding Chr_def lang.simps(5) lang.simps(3) conc_Atom by auto

lemma lang_emailRegex:
  "s \<in> lang emailRegex \<longleftrightarrow>
   (\<exists>l x y. s = l @ at_sign # x @ full_stop # y \<and> l \<in> atoms \<and> x \<in> atoms \<and> y \<in> atoms)"
proof -
  have A: "lang (Plus (Atom not_space_at)) = atoms"
    by (simp add: lang_Plus_Atom atoms_def)
  have "s \<in> lang emailRegex \<longleftrightarrow>
        (\<exists>l t. s = l @ t \<and> l \<in> atoms \<and> t \<in> lang (Seq (Chr at_sign)
           (Seq (Plus (Atom not_space_at)) (Seq (Chr full_stop) (Plus (Atom not_space_at))))))"
    unfolding emailRegex_def lang.simps(5) [of "Plus (Atom not_space_at)"] A conc_def by blast
  also have "\<dots> \<longleftrightarrow> (\<exists>l t. s = l @ at_sign # t \<and> l \<in> atoms \<and> t \<in> lang
           (Seq (Plus (Atom not_space_at)) (Seq (Chr full_stop) (Plus (Atom not_space_at)))))"
    unfolding lang_Chr_Seq by blast
  also have "\<dots> \<longleftrightarrow> (\<exists>l x t. s = l @ at_sign # x @ t \<and> l \<in> atoms \<and> x \<in> atoms \<and> t \<in> lang
           (Seq (Chr full_stop) (Plus (Atom not_space_at))))"
    unfolding lang.simps(5) [of "Plus (Atom not_space_at)"] A conc_def by blast
  also have "\<dots> \<longleftrightarrow> (\<exists>l x y. s = l @ at_sign # x @ full_stop # y \<and> l \<in> atoms \<and> x \<in> atoms \<and> y \<in> atoms)"
    unfolding lang_Chr_Seq A by blast
  finally show ?thesis .
qed

lemma count_list_0_iff: "count_list s a = 0 \<longleftrightarrow> a \<notin> set s"
  by (induction s) auto

lemma count_one_split:
  "count_list s a = 1 \<Longrightarrow> \<exists>l d. s = l @ a # d \<and> a \<notin> set l \<and> a \<notin> set d"
proof (induction s)
  case Nil
  then show ?case by simp
next
  case (Cons c s)
  show ?case
  proof (cases "c = a")
    case True
    with Cons.prems have "a \<notin> set s" by (simp add: count_list_0_iff)
    with True have "c # s = [] @ a # s \<and> a \<notin> set [] \<and> a \<notin> set s" by simp
    then show ?thesis by blast
  next
    case False
    with Cons obtain l d where "s = l @ a # d" "a \<notin> set l" "a \<notin> set d" by auto
    with False have "c # s = (c # l) @ a # d \<and> a \<notin> set (c # l) \<and> a \<notin> set d" by simp
    then show ?thesis by blast
  qed
qed

lemma takeWhile_split: "a \<notin> set l \<Longrightarrow> takeWhile (\<lambda>c. c \<noteq> a) (l @ a # d) = l"
  by (induction l) auto

lemma dropWhile_split: "a \<notin> set l \<Longrightarrow> dropWhile (\<lambda>c. c \<noteq> a) (l @ a # d) = a # d"
  by (induction l) auto

lemma not_space_specials: "\<not> is_space at_sign" "\<not> is_space full_stop" "full_stop \<noteq> at_sign"
  by (simp_all add: is_space_def at_sign_def full_stop_def)

lemma atoms_iff: "w \<in> atoms \<longleftrightarrow> w \<noteq> [] \<and> (\<forall>c\<in>set w. \<not> is_space c) \<and> at_sign \<notin> set w"
  by (auto simp: atoms_def not_space_at_def)

lemma email_lang_shape:
  assumes "s = l @ at_sign # x @ full_stop # y" "l \<in> atoms" "x \<in> atoms" "y \<in> atoms"
  shows "email_shape s"
proof -
  from assms have nl: "at_sign \<notin> set l" and nd: "at_sign \<notin> set (x @ full_stop # y)"
    using not_space_specials by (auto simp: atoms_iff)
  have 1: "\<forall>c\<in>set s. \<not> is_space c"
    using assms not_space_specials by (auto simp: atoms_iff)
  have 2: "count_list s at_sign = 1"
    using nl nd not_space_specials(3) by (auto simp: assms(1) count_list_0_iff)
  have 3: "takeWhile (\<lambda>c. c \<noteq> at_sign) s = l"
    using nl by (simp add: assms(1) takeWhile_split)
  have 4: "tl (dropWhile (\<lambda>c. c \<noteq> at_sign) s) = x @ full_stop # y"
    using nl by (simp add: assms(1) dropWhile_split)
  have 5: "length x \<in> {1 ..< length (x @ full_stop # y) - 1}"
    using assms(3,4) by (cases x; cases y) (auto simp: atoms_iff)
  have 6: "(x @ full_stop # y) ! length x = full_stop" by simp
  from assms(2) have "l \<noteq> []" by (simp add: atoms_iff)
  with 1 2 3 4 5 6 show ?thesis
    unfolding email_shape_def Let_def by metis
qed

lemma email_shape_lang:
  assumes "email_shape s"
  shows "\<exists>l x y. s = l @ at_sign # x @ full_stop # y \<and> l \<in> atoms \<and> x \<in> atoms \<and> y \<in> atoms"
proof -
  from assms have ns: "\<forall>c\<in>set s. \<not> is_space c" and c1: "count_list s at_sign = 1"
    by (simp_all add: email_shape_def)
  from count_one_split [OF c1]
  obtain l d where s: "s = l @ at_sign # d" and nl: "at_sign \<notin> set l" and nd: "at_sign \<notin> set d"
    by (elim exE conjE)
  from assms have "l \<noteq> []"
    by (simp add: email_shape_def s takeWhile_split [OF nl])
  from assms obtain i where i: "1 \<le> i" "i < length d - 1" "d ! i = full_stop"
    by (auto simp: email_shape_def s dropWhile_split [OF nl] Let_def)
  define x where "x = take i d"
  define y where "y = drop (Suc i) d"
  from i have d: "d = x @ full_stop # y"
    unfolding x_def y_def using id_take_nth_drop [of i d] by simp
  from i have "x \<noteq> []" "y \<noteq> []" by (auto simp: x_def y_def)
  with ns nl nd \<open>l \<noteq> []\<close> have "l \<in> atoms" "x \<in> atoms" "y \<in> atoms"
    by (auto simp: atoms_iff s d)
  with s d show ?thesis by blast
qed

lemma emailRegex_shape: "test emailRegex s \<longleftrightarrow> email_shape s"
  unfolding test_lang lang_emailRegex using email_lang_shape email_shape_lang by blast

section \<open>Validation follows the stated rules\<close>

lemmas label_defs = required_error_def js_def is_upper_def is_lower_def
  is_line_terminator_def toUpperCase1_def

lemma required_error_text:
  "required_error K_pgName = validation_error (js ''Pg Name is required'')"
  "required_error K_address = validation_error (js ''Address is required'')"
  "required_error K_ownerName = validation_error (js ''Owner Name is required'')"
  "required_error K_primaryMobile = validation_error (js ''Primary Mobile is required'')"
  "required_error K_email = validation_error (js ''Email is required'')"
  by (simp_all add: label_defs)

lemma required_loop_requiredFields:
  "required_loop requiredFields d =
     (if pgName d = [] then Some (validation_error (js ''Pg Name is required''))
      else if address d = [] then Some (validation_error (js ''Address is required''))
      else if ownerName d = [] then Some (validation_error (js ''Owner Name is required''))
      else if primaryMobile d = [] then Some (validation_error (js ''Primary Mobile is required''))
      else if email d = [] then Some (validation_error (js ''Email is required''))
      else None)"
  by (simp add: requiredFields_def required_error_text)

lemma mobile_rule: "test mobileRegex s \<longleftrightarrow> ten_digits s"
  by (simp add: ten_digits_def test_lang mobileRegex_def lang_Rep_Atom)

lemma hasPrice_iff: "hasPrice prices \<longleftrightarrow> some_positive_price prices"
  by (induction prices) (auto simp: hasPrice_def some_positive_price_def Object_values_def
      split: option.splits)

lemma image_rule:
  "(case images d of None \<Rightarrow> a | Some fs \<Rightarrow> if length fs = 0 then a else b) =
   (if has_image d then b else a)"
  by (cases "images d") (auto simp: has_image_def)

lemma validateForm_spec:
  "validateForm d =
     (case validate_spec d of None \<Rightarrow> (True, [])
      | Some msg \<Rightarrow> (False, [Toast (validation_error msg)]))"
  unfolding validateForm_def validate_spec_def required_loop_requiredFields image_rule
    mobile_rule emailRegex_shape hasPrice_iff
  by simp

lemma validate_spec_None:
  "validate_spec d = None \<longleftrightarrow>
     required_present d \<and> ten_digits (primaryMobile d) \<and> email_shape (email d) \<and>
     some_positive_price (sharingPrices d) \<and> has_image d"
  by (simp add: validate_spec_def required_present_def)

lemma validateForm_ok:
  "fst (validateForm d) \<longleftrightarrow> validate_spec d = None"
  by (simp add: validateForm_spec split: option.splits)

lemma Rep_10:
  "Rep 10 r = Seq r (Seq r (Seq r (Seq r (Seq r (Seq r (Seq r (Seq r (Seq r (Seq r One)))))))))"
  by (simp add: eval_nat_numeral)

lemmas regex_defs = mobileRegex_def Rep_10 is_digit_def emailRegex_def Plus_def Chr_def
  not_space_at_def is_space_def at_sign_def full_stop_def

lemma sample_fields:
  "pgName sampleFormData \<noteq> []" "address sampleFormData \<noteq> []" "ownerName sampleFormData \<noteq> []"
  "primaryMobile sampleFormData = js ''9876543210''" "email sampleFormData = js ''a@b.com''"
  "images sampleFormData = Some [Blob 0]"
  "sharingPrices sampleFormData = [(js ''1'', None), (js ''2'', Some (Fin 5000)), (js ''3'', None),
     (js ''4'', None), (js ''5'', None)]"
  by (simp_all add: sampleFormData_def initialFormData_def js_def)

lemma test_sample_mobile: "test mobileRegex (js ''9876543210'')"
  by (simp add: regex_defs js_def)

lemma test_sample_email: "test emailRegex (js ''a@b.com'')"
  by (simp add: regex_defs js_def)

lemma required_loop_sample: "required_loop requiredFields sampleFormData = None"
  using sample_fields(1-3) by (simp add: required_loop_requiredFields sample_fields(4,5) js_def)

lemma validateForm_sample: "validateForm sampleFormData = (True, [])"
  by (simp add: validateForm_def required_loop_sample sample_fields(4-7) test_sample_mobile
      test_sample_email hasPrice_def Object_values_def)

lemma validateForm_initial: "\<not> fst (validateForm initialFormData)"
  by (simp add: validateForm_def required_loop_requiredFields initialFormData_def)

lemma handleSubmit_cases:
  "handleSubmit st =
     (if fst (validateForm (formData st))
      then st\<lparr>showPreview := True,
              effects := effects st @ [PreventDefault] @ snd (validateForm (formData st)) @ [ScrollTo 0 0]\<rparr>
      else st\<lparr>effects := effects st @ [PreventDefault] @ snd (validateForm (formData st))\<rparr>)"
  by (cases "validateForm (formData st)") (simp add: handleSubmit_def Let_def)

section \<open>Submission\<close>

text \<open>
  Claim C1. \<open>handleSubmit\<close> runs \<open>validateForm\<close> on the record. When validation
  succeeds the state becomes the previewing one and the only further effect is the scroll
  to the top; when it fails exactly one notification is sent and \<open>showPreview\<close> is
  left as it was, so an editing form stays editing. In both cases the record is
  unchanged. Validation succeeds exactly when the five rules hold.
\<close>

theorem submit_runs_validate:
  "(fst (validateForm (formData st)) \<longrightarrow>
      handleSubmit st = st\<lparr>showPreview := True,
                            effects := effects st @ [PreventDefault, ScrollTo 0 0]\<rparr>) \<and>
   (\<not> fst (validateForm (formData st)) \<longrightarrow>
      (\<exists>msg. handleSubmit st = st\<lparr>effects := effects st @ [PreventDefault, Toast msg]\<rparr>) \<and>
      showPreview (handleSubmit st) = showPreview st) \<and>
   formData (handleSubmit st) = formData st \<and>
   (fst (validateForm (formData st)) \<longleftrightarrow>
      required_present (formData st) \<and> ten_digits (primaryMobile (formData st)) \<and>
      email_shape (email (formData st)) \<and> some_positive_price (sharingPrices (formData st)) \<and>
      has_image (formData st))"
proof (intro conjI impI)
  assume ok: "fst (validateForm (formData st))"
  then have "validateForm (formData st) = (True, [])"
    by (simp add: validateForm_spec split: option.splits)
  then show "handleSubmit st = st\<lparr>showPreview := True,
      effects := effects st @ [PreventDefault, ScrollTo 0 0]\<rparr>"
    by (simp add: handleSubmit_cases)
next
  assume bad: "\<not> fst (validateForm (formData st))"
  then obtain msg where "validateForm (formData st) = (False, [Toast (validation_error msg)])"
    by (auto simp: validateForm_spec split: option.splits)
  then have "handleSubmit st = st\<lparr>effects := effects st @ [PreventDefault, Toast (validation_error msg)]\<rparr>"
    by (simp add: handleSubmit_cases)
  then show "\<exists>msg. handleSubmit st = st\<lparr>effects := effects st @ [PreventDefault, Toast msg]\<rparr>"
    by blast
  from bad show "showPreview (handleSubmit st) = showPreview st"
    by (simp add: handleSubmit_cases)
next
  show "formData (handleSubmit st) = formData st"
    by (simp add: handleSubmit_cases)
  show "fst (validateForm (formData st)) \<longleftrightarrow>
      required_present (formData st) \<and> ten_digits (primaryMobile (formData st)) \<and>
      email_shape (email (formData st)) \<and> some_positive_price (sharingPrices (formData st)) \<and>
      has_image (formData st)"
    by (simp only: validateForm_ok validate_spec_None)
qed

theorem submit_runs_validate_witness:
  "fst (validateForm (formData sampleState)) \<and>
   handleSubmit sampleState = sampleState\<lparr>showPreview := True, effects := [PreventDefault, ScrollTo 0 0]\<rparr> \<and>
   \<not> fst (validateForm (formData initialState)) \<and>
   \<not> showPreview (handleSubmit initialState) \<and>
   formData (handleSubmit initialState) = initialFormData"
proof -
  have a: "fst (validateForm (formData sampleState))"
    by (simp add: sampleState_def validateForm_sample)
  have b: "\<not> fst (validateForm (formData initialState))"
    by (simp add: initialState_def validateForm_initial)
  from a submit_runs_validate [of sampleState]
  have "handleSubmit sampleState = sampleState\<lparr>showPreview := True,
      effects := effects sampleState @ [PreventDefault, ScrollTo 0 0]\<rparr>" by blast
  moreover from b submit_runs_validate [of initialState]
  have "showPreview (handleSubmit initialState) = showPreview initialState"
    and "formData (handleSubmit initialState) = formData initialState" by blast+
  ultimately show ?thesis using a b by (simp add: sampleState_def initialState_def)
qed

text \<open>
  Claim C2. \<open>validateForm\<close> checks \<open>pgName\<close>, \<open>address\<close>, \<open>ownerName\<close>,
  \<open>primaryMobile\<close>, \<open>email\<close> for emptiness in that order, then the format of the
  mobile number, the format of the e-mail address, the sharing prices and the images; it
  sends the message of the first rule that fails and no other, and it returns true exactly
  when all five rules hold.
\<close>

theorem validate_order:
  "validateForm d =
     (case validate_spec d of None \<Rightarrow> (True, [])
      | Some msg \<Rightarrow> (False, [Toast (validation_error msg)])) \<and>
   (fst (validateForm d) \<longleftrightarrow>
      required_present d \<and> ten_digits (primaryMobile d) \<and> email_shape (email d) \<and>
      some_positive_price (sharingPrices d) \<and> has_image d)"
  using validateForm_spec [of d] validateForm_ok [of d] validate_spec_None [of d] by simp

theorem validate_order_witness:
  "required_present sampleFormData \<and> ten_digits (primaryMobile sampleFormData) \<and>
   email_shape (email sampleFormData) \<and> some_positive_price (sharingPrices sampleFormData) \<and>
   has_image sampleFormData \<and>
   validateForm (sampleFormData\<lparr>address := [], email := js ''a@b''\<rparr>) =
     (False, [Toast (validation_error (js ''Address is required''))])"
proof -
  have "validate_spec (sampleFormData\<lparr>address := [], email := js ''a@b''\<rparr>) =
      Some (js ''Address is required'')"
    using sample_fields(1) by (simp add: validate_spec_def)
  then show ?thesis
    using validate_order [of sampleFormData]
      validate_order [of "sampleFormData\<lparr>address := [], email := js ''a@b''\<rparr>"]
    by (simp add: validateForm_sample)
qed

lemma validateForm_message:
  "validateForm d = (False, [Toast (validation_error msg)]) \<longleftrightarrow> validate_spec d = Some msg"
  by (auto simp: validateForm_spec validation_error_def split: option.splits)

lemma msg_distinct:
  "js ''Primary mobile number must be 10 digits'' \<noteq> js ''Please enter a valid email address''"
  "js ''Primary mobile number must be 10 digits'' \<noteq> js ''Enter at least one sharing option price''"
  "js ''Primary mobile number must be 10 digits'' \<noteq> js ''Please upload at least one image''"
  "js ''Please enter a valid email address'' \<noteq> js ''Enter at least one sharing option price''"
  "js ''Please enter a valid email address'' \<noteq> js ''Please upload at least one image''"
  "js ''Enter at least one sharing option price'' \<noteq> js ''Please upload at least one image''"
  by (simp_all add: js_def)

section \<open>The rules one by one\<close>

text \<open>
  Claim C3. The pattern for \<open>primaryMobile\<close> accepts a string exactly when it is
  ten decimal digits long: \<open>12345\<close> is refused and \<open>9876543210\<close> accepted. In
  \<open>validateForm\<close>, once the required values are present, the mobile message is sent
  exactly when the number is not of that form.
\<close>

theorem mobile_rule_ten_digits:
  "(test mobileRegex s \<longleftrightarrow> length s = 10 \<and> (\<forall>c\<in>set s. is_digit c)) \<and>
   \<not> test mobileRegex (js ''12345'') \<and>
   test mobileRegex (js ''9876543210'') \<and>
   (required_present d \<longrightarrow>
      (validateForm d = (False, [Toast (validation_error (js ''Primary mobile number must be 10 digits''))])
       \<longleftrightarrow> \<not> (length (primaryMobile d) = 10 \<and> (\<forall>c\<in>set (primaryMobile d). is_digit c))))"
proof (intro conjI impI)
  show "test mobileRegex s \<longleftrightarrow> length s = 10 \<and> (\<forall>c\<in>set s. is_digit c)"
    by (simp add: mobile_rule ten_digits_def)
  show "\<not> test mobileRegex (js ''12345'')"
    unfolding mobile_rule ten_digits_def by (simp add: js_def)
  show "test mobileRegex (js ''9876543210'')"
    by (rule test_sample_mobile)
next
  assume "required_present d"
  then show "validateForm d = (False, [Toast (validation_error (js ''Primary mobile number must be 10 digits''))])
       \<longleftrightarrow> \<not> (length (primaryMobile d) = 10 \<and> (\<forall>c\<in>set (primaryMobile d). is_digit c))"
    unfolding validateForm_message ten_digits_def [symmetric]
    using msg_distinct by (simp add: validate_spec_def required_present_def)
qed

theorem mobile_rule_ten_digits_witness:
  "required_present (sampleFormData\<lparr>primaryMobile := js ''12345''\<rparr>) \<and>
   validateForm (sampleFormData\<lparr>primaryMobile := js ''12345''\<rparr>) =
     (False, [Toast (validation_error (js ''Primary mobile number must be 10 digits''))]) \<and>
   ten_digits (js ''9876543210'')"
proof -
  have r: "required_present (sampleFormData\<lparr>primaryMobile := js ''12345''\<rparr>)"
    using sample_fields(1-3) by (simp add: required_present_def sample_fields(5) js_def)
  have "length (primaryMobile (sampleFormData\<lparr>primaryMobile := js ''12345''\<rparr>)) \<noteq> 10"
    by (simp add: js_def)
  with r mobile_rule_ten_digits [of "js ''9876543210''" "sampleFormData\<lparr>primaryMobile := js ''12345''\<rparr>"]
  show ?thesis unfolding ten_digits_def by blast
qed

text \<open>
  Claim C4. The pattern for \<open>email\<close> accepts a string exactly when it has no white
  space, exactly one \<open>@\<close> with text before it, and after the \<open>@\<close> a \<open>.\<close> with
  text on both sides: \<open>a@b\<close> is refused and \<open>a@b.com\<close> accepted. In
  \<open>validateForm\<close>, once the earlier rules hold, the e-mail message is sent exactly when
  the address is not of that shape.
\<close>

theorem email_rule_shape:
  "(test emailRegex s \<longleftrightarrow> email_shape s) \<and>
   \<not> test emailRegex (js ''a@b'') \<and>
   test emailRegex (js ''a@b.com'') \<and>
   (required_present d \<and> ten_digits (primaryMobile d) \<longrightarrow>
      (validateForm d = (False, [Toast (validation_error (js ''Please enter a valid email address''))])
       \<longleftrightarrow> \<not> email_shape (email d)))"
proof (intro conjI impI)
  show "test emailRegex s \<longleftrightarrow> email_shape s"
    by (rule emailRegex_shape)
  show "\<not> test emailRegex (js ''a@b'')"
    by (simp add: regex_defs js_def)
  show "test emailRegex (js ''a@b.com'')"
    by (rule test_sample_email)
next
  assume "required_present d \<and> ten_digits (primaryMobile d)"
  then show "validateForm d = (False, [Toast (validation_error (js ''Please enter a valid email address''))])
       \<longleftrightarrow> \<not> email_shape (email d)"
    unfolding validateForm_message
    using msg_distinct by (simp add: validate_spec_def required_present_def)
qed

theorem email_rule_shape_witness:
  "email_shape (js ''a@b.com'') \<and> \<not> email_shape (js ''a@b'') \<and>
   required_present (sampleFormData\<lparr>email := js ''a@b''\<rparr>) \<and>
   ten_digits (primaryMobile (sampleFormData\<lparr>email := js ''a@b''\<rparr>)) \<and>
   validateForm (sampleFormData\<lparr>email := js ''a@b''\<rparr>) =
     (False, [Toast (validation_error (js ''Please enter a valid email address''))])"
proof -
  let ?d = "sampleFormData\<lparr>email := js ''a@b''\<rparr>"
  have r: "required_present ?d"
    using sample_fields(1-3) by (simp add: required_present_def sample_fields(4) js_def)
  have t: "ten_digits (primaryMobile ?d)"
    using test_sample_mobile by (simp add: mobile_rule sample_fields(4))
  have a: "email_shape (js ''a@b.com'')" and b: "\<not> email_shape (js ''a@b'')"
    using email_rule_shape [of "js ''a@b.com''" ?d] email_rule_shape [of "js ''a@b''" ?d] by blast+
  from b have "\<not> email_shape (email ?d)" by simp
  with r t email_rule_shape [of "js ''a@b''" ?d] a b show ?thesis by blast
qed

lemma obj_set_lookup: "map_of (obj_set k v ps) = (map_of ps)(k \<mapsto> v)"
  by (induction k v ps rule: obj_set.induct) (auto simp: fun_eq_iff)

lemma obj_set_keys:
  "map fst (obj_set k v ps) = (if k \<in> fst ` set ps then map fst ps else map fst ps @ [k])"
  by (induction k v ps rule: obj_set.induct) (auto simp: image_iff)

lemma obj_set_values: "v \<in> set (Object_values (obj_set k v ps))"
  unfolding Object_values_def by (induction k v ps rule: obj_set.induct) auto

lemma obj_set_values_subset:
  "set (Object_values (obj_set k v ps)) \<subseteq> insert v (set (Object_values ps))"
  unfolding Object_values_def by (induction k v ps rule: obj_set.induct) auto

lemma hasPrice_obj_set: "gt_zero n \<Longrightarrow> hasPrice (obj_set k (Some n) ps)"
  unfolding hasPrice_def list_ex_iff using obj_set_values [of "Some n" k ps] by force

lemma not_hasPrice_iff:
  "\<not> hasPrice ps \<longleftrightarrow> (\<forall>v\<in>set (Object_values ps). v = None \<or> (\<exists>n. v = Some n \<and> \<not> gt_zero n))"
  by (auto simp: hasPrice_def list_ex_iff split: option.splits)

text \<open>
  Claim C5. The sharing price rule fails exactly when every entry is \<open>null\<close> or a
  number that is not greater than zero, and setting the entry \<open>2\<close> to \<open>5000\<close>
  satisfies it whatever the other entries are. In \<open>validateForm\<close>, once the earlier
  rules hold, the price message is sent exactly when the rule fails; and a record that
  meets the other four rules passes validation once that entry is set.
\<close>

theorem price_rule:
  "(\<not> hasPrice ps \<longleftrightarrow>
      (\<forall>v\<in>set (Object_values ps). v = None \<or> (\<exists>n. v = Some n \<and> \<not> gt_zero n))) \<and>
   hasPrice (obj_set (js ''2'') (Some (Fin 5000)) ps) \<and>
   (required_present d \<and> ten_digits (primaryMobile d) \<and> email_shape (email d) \<longrightarrow>
      (validateForm d = (False, [Toast (validation_error (js ''Enter at least one sharing option price''))])
       \<longleftrightarrow> \<not> hasPrice (sharingPrices d))) \<and>
   (required_present d \<and> ten_digits (primaryMobile d) \<and> email_shape (email d) \<and> has_image d \<longrightarrow>
      fst (validateForm (d\<lparr>sharingPrices := obj_set (js ''2'') (Some (Fin 5000)) (sharingPrices d)\<rparr>)))"
proof (intro conjI impI)
  show "\<not> hasPrice ps \<longleftrightarrow>
      (\<forall>v\<in>set (Object_values ps). v = None \<or> (\<exists>n. v = Some n \<and> \<not> gt_zero n))"
    by (rule not_hasPrice_iff)
  show "hasPrice (obj_set (js ''2'') (Some (Fin 5000)) ps)"
    by (rule hasPrice_obj_set) simp
next
  assume "required_present d \<and> ten_digits (primaryMobile d) \<and> email_shape (email d)"
  then show "validateForm d = (False, [Toast (validation_error (js ''Enter at least one sharing option price''))])
       \<longleftrightarrow> \<not> hasPrice (sharingPrices d)"
    unfolding validateForm_message hasPrice_iff
    using msg_distinct by (simp add: validate_spec_def required_present_def)
next
  assume a: "required_present d \<and> ten_digits (primaryMobile d) \<and> email_shape (email d) \<and> has_image d"
  have "some_positive_price (obj_set (js ''2'') (Some (Fin 5000)) (sharingPrices d))"
    unfolding hasPrice_iff [symmetric] by (rule hasPrice_obj_set) simp
  with a show "fst (validateForm (d\<lparr>sharingPrices := obj_set (js ''2'') (Some (Fin 5000)) (sharingPrices d)\<rparr>))"
    by (simp add: validateForm_ok validate_spec_None required_present_def has_image_def)
qed

lemma sample_rules:
  "required_present sampleFormData" "ten_digits (primaryMobile sampleFormData)"
  "email_shape (email sampleFormData)" "has_image sampleFormData"
proof -
  have "fst (validateForm sampleFormData)" by (simp add: validateForm_sample)
  then have "validate_spec sampleFormData = None" by (simp only: validateForm_ok)
  then show "required_present sampleFormData" "ten_digits (primaryMobile sampleFormData)"
    "email_shape (email sampleFormData)" "has_image sampleFormData"
    by (simp_all only: validate_spec_None)
qed

theorem price_rule_witness:
  "\<not> hasPrice (sharingPrices initialFormData) \<and>
   \<not> hasPrice [(js ''1'', Some (Fin 0)), (js ''2'', Some (Fin (- 5))), (js ''3'', Some NaN),
                (js ''4'', None), (js ''5'', None)] \<and>
   validateForm (sampleFormData\<lparr>sharingPrices := sharingPrices initialFormData\<rparr>) =
     (False, [Toast (validation_error (js ''Enter at least one sharing option price''))]) \<and>
   fst (validateForm ((sampleFormData\<lparr>sharingPrices := sharingPrices initialFormData\<rparr>)
     \<lparr>sharingPrices := obj_set (js ''2'') (Some (Fin 5000)) (sharingPrices initialFormData)\<rparr>))"
proof -
  let ?d = "sampleFormData\<lparr>sharingPrices := sharingPrices initialFormData\<rparr>"
  let ?ps = "[(js ''1'', Some (Fin 0)), (js ''2'', Some (Fin (- 5))), (js ''3'', Some NaN),
                (js ''4'', None), (js ''5'', None)]"
  have r: "required_present ?d \<and> ten_digits (primaryMobile ?d) \<and> email_shape (email ?d) \<and> has_image ?d"
    using sample_rules by (simp add: required_present_def has_image_def)
  have v: "\<forall>v\<in>set (Object_values (sharingPrices initialFormData)). v = None \<or> (\<exists>n. v = Some n \<and> \<not> gt_zero n)"
    by (simp add: initialFormData_def Object_values_def)
  have w: "\<forall>v\<in>set (Object_values ?ps). v = None \<or> (\<exists>n. v = Some n \<and> \<not> gt_zero n)"
    by (simp add: Object_values_def)
  from v price_rule [of "sharingPrices initialFormData" ?d]
  have 1: "\<not> hasPrice (sharingPrices initialFormData)" by blast
  from w price_rule [of ?ps ?d] have 2: "\<not> hasPrice ?ps" by blast
  from 1 have "\<not> hasPrice (sharingPrices ?d)" by simp
  with r price_rule [of ?ps ?d]
  have 3: "validateForm ?d =
     (False, [Toast (validation_error (js ''Enter at least one sharing option price''))])" by blast
  from r price_rule [of ?ps ?d]
  have 4: "fst (validateForm (?d\<lparr>sharingPrices := obj_set (js ''2'') (Some (Fin 5000)) (sharingPrices ?d)\<rparr>))"
    by blast
  from 1 2 3 4 show ?thesis by simp
qed

section \<open>Images and amenities\<close>

lemma handleImageChange_if:
  "handleImageChange files st =
     (if \<exists>fs. files = Some fs \<and> 1 \<le> length fs \<and> length fs \<le> 10
      then st\<lparr>formData := (formData st)\<lparr>images := files\<rparr>\<rparr>
      else st\<lparr>effects := effects st @ [Toast image_error]\<rparr>)"
proof (cases files)
  case None
  then show ?thesis by (simp only: handleImageChange_def option.case) simp
next
  case (Some fs)
  have "(length fs > 0 \<and> length fs \<le> 10) = (1 \<le> length fs \<and> length fs \<le> 10)"
    by (cases fs) auto
  with Some show ?thesis by (simp only: handleImageChange_def option.case) simp
qed

text \<open>
  Claim C6. \<open>handleImageChange\<close> stores the selection exactly when it holds between
  one and ten files, and then does nothing else; any other selection (none, empty, eleven
  or more) leaves the state as it was but for one error notification. The stored images
  are therefore always the whole selection or the previous value, never a part of it.
\<close>

theorem images_all_or_nothing:
  "((\<exists>fs. files = Some fs \<and> 1 \<le> length fs \<and> length fs \<le> 10) \<longrightarrow>
      handleImageChange files st = st\<lparr>formData := (formData st)\<lparr>images := files\<rparr>\<rparr>) \<and>
   (\<not> (\<exists>fs. files = Some fs \<and> 1 \<le> length fs \<and> length fs \<le> 10) \<longrightarrow>
      handleImageChange files st = st\<lparr>effects := effects st @ [Toast image_error]\<rparr>) \<and>
   (images (formData (handleImageChange files st)) = files \<or>
    images (formData (handleImageChange files st)) = images (formData st))"
proof (intro conjI impI)
  assume "\<exists>fs. files = Some fs \<and> 1 \<le> length fs \<and> length fs \<le> 10"
  then show "handleImageChange files st = st\<lparr>formData := (formData st)\<lparr>images := files\<rparr>\<rparr>"
    by (simp only: handleImageChange_if if_True)
next
  assume "\<not> (\<exists>fs. files = Some fs \<and> 1 \<le> length fs \<and> length fs \<le> 10)"
  then show "handleImageChange files st = st\<lparr>effects := effects st @ [Toast image_error]\<rparr>"
    by (simp only: handleImageChange_if if_False)
next
  show "images (formData (handleImageChange files st)) = files \<or>
    images (formData (handleImageChange files st)) = images (formData st)"
    by (cases "\<exists>fs. files = Some fs \<and> 1 \<le> length fs \<and> length fs \<le> 10")
       (simp_all only: handleImageChange_if if_True if_False, simp_all)
qed

theorem images_all_or_nothing_witness:
  "images (formData (handleImageChange (Some (map Blob [1 ..< 11])) sampleState)) = Some (map Blob [1 ..< 11]) \<and>
   images (formData (handleImageChange (Some [Blob 7]) sampleState)) = Some [Blob 7] \<and>
   handleImageChange (Some []) sampleState = sampleState\<lparr>effects := [Toast image_error]\<rparr> \<and>
   handleImageChange (Some (map Blob [1 ..< 12])) sampleState = sampleState\<lparr>effects := [Toast image_error]\<rparr> \<and>
   images (formData (handleImageChange (Some (map Blob [1 ..< 12])) sampleState)) = Some [Blob 0]"
proof -
  have a: "\<exists>fs. Some (map Blob [1 ..< 11]) = Some fs \<and> 1 \<le> length fs \<and> length fs \<le> 10" by simp
  have b: "\<exists>fs. Some [Blob 7] = Some fs \<and> 1 \<le> length fs \<and> length fs \<le> 10" by simp
  have c: "\<not> (\<exists>fs. Some ([] :: File list) = Some fs \<and> 1 \<le> length fs \<and> length fs \<le> 10)" by simp
  have d: "\<not> (\<exists>fs. Some (map Blob [1 ..< 12]) = Some fs \<and> 1 \<le> length fs \<and> length fs \<le> 10)" by simp
  have e: "effects sampleState = []" and f: "images (formData sampleState) = Some [Blob 0]"
    by (simp_all add: sampleState_def sample_fields)
  from a images_all_or_nothing [of "Some (map Blob [1 ..< 11])" sampleState]
  have 1: "handleImageChange (Some (map Blob [1 ..< 11])) sampleState =
      sampleState\<lparr>formData := (formData sampleState)\<lparr>images := Some (map Blob [1 ..< 11])\<rparr>\<rparr>" by blast
  from b images_all_or_nothing [of "Some [Blob 7]" sampleState]
  have 2: "handleImageChange (Some [Blob 7]) sampleState =
      sampleState\<lparr>formData := (formData sampleState)\<lparr>images := Some [Blob 7]\<rparr>\<rparr>" by blast
  from c images_all_or_nothing [of "Some []" sampleState]
  have 3: "handleImageChange (Some []) sampleState = sampleState\<lparr>effects := effects sampleState @ [Toast image_error]\<rparr>"
    by blast
  from d images_all_or_nothing [of "Some (map Blob [1 ..< 12])" sampleState]
  have 4: "handleImageChange (Some (map Blob [1 ..< 12])) sampleState =
      sampleState\<lparr>effects := effects sampleState @ [Toast image_error]\<rparr>" by blast
  show ?thesis unfolding 1 2 3 4 using e f by simp
qed

text \<open>
  Claim C7. For each of the ten names, \<open>handleCheckboxChange\<close> negates that flag,
  keeps the other nine, and changes no other field of the record.
\<close>

theorem toggle_one_amenity:
  "get_amenity (amenities (handleCheckboxChange name d)) name = (\<not> get_amenity (amenities d) name) \<and>
   (\<forall>other. other \<noteq> name \<longrightarrow>
      get_amenity (amenities (handleCheckboxChange name d)) other = get_amenity (amenities d) other) \<and>
   (handleCheckboxChange name d)\<lparr>amenities := amenities d\<rparr> = d"
proof (intro conjI allI impI)
  show "get_amenity (amenities (handleCheckboxChange name d)) name = (\<not> get_amenity (amenities d) name)"
    by (cases name) (simp_all add: handleCheckboxChange_def)
  show "(handleCheckboxChange name d)\<lparr>amenities := amenities d\<rparr> = d"
    by (simp add: handleCheckboxChange_def)
next
  fix other assume "other \<noteq> name"
  then show "get_amenity (amenities (handleCheckboxChange name d)) other = get_amenity (amenities d) other"
    by (cases name; cases other) (simp_all add: handleCheckboxChange_def)
qed

theorem toggle_one_amenity_witness:
  "gym (amenities (handleCheckboxChange A_gym initialFormData)) \<and>
   \<not> wifi (amenities (handleCheckboxChange A_gym initialFormData)) \<and>
   \<not> gym (amenities (handleCheckboxChange A_gym (handleCheckboxChange A_gym initialFormData)))"
proof -
  let ?d = "handleCheckboxChange A_gym initialFormData"
  have n: "A_wifi \<noteq> A_gym" by simp
  have i: "\<not> get_amenity (amenities initialFormData) A_gym" "\<not> get_amenity (amenities initialFormData) A_wifi"
    by (simp_all add: initialFormData_def)
  from toggle_one_amenity [of A_gym initialFormData] i(1)
  have 1: "get_amenity (amenities ?d) A_gym" by blast
  from toggle_one_amenity [of A_gym initialFormData] n i(2)
  have 2: "\<not> get_amenity (amenities ?d) A_wifi" by blast
  from toggle_one_amenity [of A_gym ?d] 1
  have 3: "\<not> get_amenity (amenities (handleCheckboxChange A_gym ?d)) A_gym" by blast
  from 1 2 3 show ?thesis by simp
qed

section \<open>Evaluating numbers\<close>

lemma floor_rat_numeral:
  "\<lfloor>(numeral a :: rat) / numeral b\<rfloor> = numeral a div numeral b"
  "\<lfloor>- (numeral a :: rat) / numeral b\<rfloor> = - numeral a div numeral b"
  "\<lfloor>- ((numeral a :: rat) / numeral b)\<rfloor> = - numeral a div numeral b"
  by (metis floor_divide_of_int_eq of_int_numeral of_int_minus divide_minus_left)+

lemma ceiling_rat_numeral:
  "\<lceil>(numeral a :: rat) / numeral b\<rceil> = - (- numeral a div numeral b)"
  unfolding ceiling_def by (simp add: floor_rat_numeral)

lemmas fl_eval = fl_def round_to_def ilog2_def round_even_def pow2_def Let_def compute_floorlog
  floor_rat_numeral ceiling_rat_numeral

lemmas Number_eval = Number_js_def trim_def radix_literal_def unsigned_decimal_def
  exponent_part_def digits_value_def digit_value_def pow10_def is_digit_def is_space_def
  full_stop_def js_def

lemma fl_5: "fl 5 = Fin 5" "fl (- 5) = Fin (- 5)"
  by (simp_all add: fl_eval)

lemma Number_minus_5: "Number_js (js ''-5'') = Fin (- 5)"
  by (simp add: Number_eval fl_5)

section \<open>Sharing prices over a session\<close>

lemma sharingPrices_set_str: "sharingPrices (set_str k v d) = sharingPrices d"
  by (cases k) simp_all

lemma sharingPrices_handleImageChange:
  "sharingPrices (formData (handleImageChange files st)) = sharingPrices (formData st)"
  by (cases "\<exists>fs. files = Some fs \<and> 1 \<le> length fs \<and> length fs \<le> 10")
     (simp_all only: handleImageChange_if if_True if_False, simp_all)

lemma formData_handleSubmit: "formData (handleSubmit st) = formData st"
  by (simp add: handleSubmit_cases)

lemma step_sharingPrices:
  "sharingPrices (formData (step st ev)) =
     (case ev of
        SharingPriceChange key val \<Rightarrow>
          obj_set key (if val = [] then None else Some (Number_js val)) (sharingPrices (formData st))
      | _ \<Rightarrow> sharingPrices (formData st))"
  by (cases ev)
     (simp_all add: handleInputChange_def handleRadioChange_def handleCheckboxChange_def
        handleSharingPriceChange_def sharingPrices_set_str sharingPrices_handleImageChange
        formData_handleSubmit editListing_def handlePost_def)

lemma price_inputs_append: "price_inputs (xs @ ys) = price_inputs xs @ price_inputs ys"
  by (induction xs rule: price_inputs.induct) simp_all

lemma run_snoc: "run (evs @ [ev]) st = step (run evs st) ev"
  by (simp add: run_def)

lemma parsed_from_mono: "parsed_from raws v \<Longrightarrow> parsed_from (raws @ extra) v"
  by (auto simp: parsed_from_def)

lemma session_prices:
  assumes "\<forall>ev\<in>set evs. form_event ev"
  shows "map fst (sharingPrices (formData (run evs initialState))) = sharing_keys \<and>
         (\<forall>v\<in>set (Object_values (sharingPrices (formData (run evs initialState)))).
            parsed_from (price_inputs evs) v)"
  using assms
proof (induction evs rule: rev_induct)
  case Nil
  show ?case
    by (simp add: run_def initialState_def initialFormData_def sharing_keys_def Object_values_def
        parsed_from_def)
next
  case (snoc ev evs)
  let ?st = "run evs initialState"
  from snoc have keys: "map fst (sharingPrices (formData ?st)) = sharing_keys"
    and vals: "\<forall>v\<in>set (Object_values (sharingPrices (formData ?st))). parsed_from (price_inputs evs) v"
    by simp_all
  show ?case
  proof (cases "\<exists>key val. ev = SharingPriceChange key val")
    case True
    then obtain key val where ev: "ev = SharingPriceChange key val" by blast
    let ?v = "if val = [] then None else Some (Number_js val)"
    from snoc.prems ev have "key \<in> set sharing_keys" by simp
    with keys have "key \<in> fst ` set (sharingPrices (formData ?st))"
      by (metis set_map)
    then have k: "map fst (obj_set key ?v (sharingPrices (formData ?st))) = sharing_keys"
      by (simp add: obj_set_keys keys)
    have new: "parsed_from (price_inputs (evs @ [ev])) ?v"
      by (simp add: parsed_from_def price_inputs_append ev)
    have "parsed_from (price_inputs (evs @ [ev])) v"
      if "v \<in> set (Object_values (obj_set key ?v (sharingPrices (formData ?st))))" for v
    proof -
      from that obj_set_values_subset [of key ?v "sharingPrices (formData ?st)"]
      have "v = ?v \<or> v \<in> set (Object_values (sharingPrices (formData ?st)))" by blast
      then show ?thesis
        using new vals parsed_from_mono [of "price_inputs evs" v "price_inputs [ev]"]
        by (auto simp: price_inputs_append)
    qed
    with k show ?thesis by (simp add: run_snoc step_sharingPrices ev del: step.simps)
  next
    case False
    then have same: "sharingPrices (formData (step ?st ev)) = sharingPrices (formData ?st)"
      by (cases ev) (simp_all add: step_sharingPrices del: step.simps)
    from False have "price_inputs (evs @ [ev]) = price_inputs evs"
      by (cases ev) (simp_all add: price_inputs_append)
    with keys vals same show ?thesis by (simp add: run_snoc)
  qed
qed

text \<open>
  Claim C9, as the code has it. After any session of the form, started from the initial
  record, the keys of \<open>sharingPrices\<close> are exactly \<open>1\<close> to \<open>5\<close>, in that order, and
  every value is \<open>null\<close> or the number that \<open>Number\<close> read from a non-empty text
  typed into a price input. Nothing confines that number to the non-negative integers.
\<close>

theorem prices_after_session:
  "\<forall>ev\<in>set evs. form_event ev \<Longrightarrow>
   map fst (sharingPrices (formData (run evs initialState))) = sharing_keys \<and>
   (\<forall>v\<in>set (Object_values (sharingPrices (formData (run evs initialState)))).
      v = None \<or> (\<exists>raw\<in>set (price_inputs evs). raw \<noteq> [] \<and> v = Some (Number_js raw)))"
  using session_prices [of evs] by (simp add: parsed_from_def)

theorem prices_after_session_witness:
  "list_all form_event sampleSession \<and>
   map fst (sharingPrices (formData (run sampleSession initialState))) = map js [''1'', ''2'', ''3'', ''4'', ''5'']"
proof -
  have "\<forall>ev\<in>set sampleSession. form_event ev"
    by (simp add: sampleSession_def sharing_keys_def)
  with prices_after_session [of sampleSession] show ?thesis
    by (simp add: sharing_keys_def list_all_iff)
qed

text \<open>
  Claim C9 as stated fails: typing \<open>-5\<close> into the first price input stores \<open>-5\<close>.
\<close>

theorem negative_price_stored:
  "form_event (SharingPriceChange (js ''1'') (js ''-5'')) \<and>
   sharingPrices (formData (run [SharingPriceChange (js ''1'') (js ''-5'')] initialState)) =
     [(js ''1'', Some (Fin (- 5))), (js ''2'', None), (js ''3'', None), (js ''4'', None), (js ''5'', None)] \<and>
   \<not> prices_are_amounts (formData (run [SharingPriceChange (js ''1'') (js ''-5'')] initialState))"
proof -
  have "sharingPrices (formData (run [SharingPriceChange (js ''1'') (js ''-5'')] initialState)) =
     [(js ''1'', Some (Number_js (js ''-5''))), (js ''2'', None), (js ''3'', None), (js ''4'', None), (js ''5'', None)]"
    by (simp add: run_def initialState_def initialFormData_def handleSharingPriceChange_def js_def)
  then show ?thesis
    by (simp add: Number_minus_5 prices_are_amounts_def Object_values_def is_amount_def sharing_keys_def)
qed

section \<open>Rounding to binary64\<close>

text \<open>
  The exponent found by \<open>ilog2\<close> brackets its argument, so a value in the normal
  range is rounded with a relative error of at most \<open>2^-53\<close>.
\<close>

lemma pow2_powi: "pow2 e = 2 powi e"
  by (simp add: pow2_def power_int_def power_one_over inverse_eq_divide)

lemma pow2_pos: "0 < pow2 e"
  by (simp add: pow2_powi)

lemma pow2_add: "pow2 (a + b) = pow2 a * pow2 b"
  by (simp add: pow2_powi power_int_add)

lemma pow2_mono: "a \<le> b \<Longrightarrow> pow2 a \<le> pow2 b"
  by (simp add: pow2_powi power_int_increasing)

lemma pow2_nat: "pow2 (int n) = 2 ^ n"
  by (simp add: pow2_def)

lemma pow2_neg_nat: "pow2 (- int n) = 1 / 2 ^ n"
  by (simp add: pow2_powi power_int_minus_divide)

lemma pow2_half: "pow2 (e - 1) = pow2 e / 2"
proof -
  have "pow2 e = pow2 ((e - 1) + 1)" by simp
  also have "\<dots> = pow2 (e - 1) * 2" by (simp only: pow2_add) (simp add: pow2_def)
  finally show ?thesis by simp
qed

lemma ilog2_bounds:
  assumes "0 < a"
  shows "pow2 (ilog2 a) \<le> a \<and> a < pow2 (ilog2 a + 1)"
proof (cases "1 \<le> a")
  case True
  define m where "m = nat \<lfloor>a\<rfloor>"
  define L where "L = floorlog 2 m"
  from True have fl1: "1 \<le> \<lfloor>a\<rfloor>" by simp
  then have m: "0 < m" by (simp add: m_def)
  from floorlog_bounds [OF m, of 2] have b: "2 ^ (L - 1) \<le> m" "m < 2 ^ L"
    by (simp_all add: L_def)
  from b(2) m have L: "1 \<le> L" by (cases L) simp_all
  have e: "ilog2 a = int (L - 1)"
    using True L by (simp add: ilog2_def m_def L_def)
  have ma: "of_nat m \<le> a" "a < of_nat m + 1"
    using fl1 by (simp_all add: m_def) linarith+
  have "(2::rat) ^ (L - 1) \<le> of_nat m"
    using b(1) by (metis of_nat_le_iff of_nat_numeral of_nat_power)
  with ma(1) have "2 ^ (L - 1) \<le> a" by (rule order_trans [rotated])
  then have lo: "pow2 (ilog2 a) \<le> a" by (simp only: e pow2_nat)
  have "of_nat m + (1::rat) \<le> 2 ^ L"
    using b(2) by (metis Suc_leI of_nat_Suc of_nat_le_iff of_nat_numeral of_nat_power add.commute)
  with ma(2) have "a < 2 ^ L" by (rule order_less_le_trans)
  moreover have "ilog2 a + 1 = int L" using e L by simp
  ultimately have "a < pow2 (ilog2 a + 1)" by (simp add: pow2_nat)
  with lo show ?thesis by simp
next
  case False
  define c where "c = \<lceil>1 / a\<rceil>"
  define m where "m = nat (c - 1)"
  define L where "L = floorlog 2 m"
  from False assms have "1 < 1 / a" by (simp add: field_simps)
  then have c2: "2 \<le> c" unfolding c_def by linarith
  then have m: "0 < m" and mc: "int m = c - 1" by (simp_all add: m_def)
  from floorlog_bounds [OF m, of 2] have b: "2 ^ (L - 1) \<le> m" "m < 2 ^ L"
    by (simp_all add: L_def)
  from b(2) m have L: "1 \<le> L" by (cases L) simp_all
  have e: "ilog2 a = - int L"
    using False by (simp add: ilog2_def m_def L_def c_def)
  have ca: "1 / a \<le> of_int c" "of_int c - 1 < 1 / a"
    unfolding c_def by linarith+
  have "of_int c \<le> (2::rat) ^ L"
  proof -
    from b(2) have "int m < 2 ^ L" by (metis of_nat_less_iff of_nat_numeral of_nat_power)
    with mc have "c \<le> 2 ^ L" by simp
    then show ?thesis by (metis of_int_le_iff of_int_numeral of_int_power)
  qed
  with ca(1) have "1 / a \<le> 2 ^ L" by (rule order_trans)
  with assms have lo: "1 / 2 ^ L \<le> a" by (simp add: field_simps)
  have "(2::rat) ^ (L - 1) \<le> of_int c - 1"
  proof -
    from b(1) have "2 ^ (L - 1) \<le> int m" by (metis of_nat_le_iff of_nat_numeral of_nat_power)
    with mc have "2 ^ (L - 1) \<le> c - 1" by simp
    then have "of_int (2 ^ (L - 1)) \<le> (of_int (c - 1) :: rat)" by (simp only: of_int_le_iff)
    then show ?thesis by simp
  qed
  with ca(2) have "2 ^ (L - 1) < 1 / a" by (rule order_le_less_trans [rotated])
  with assms have hi: "a < 1 / 2 ^ (L - 1)" by (simp add: field_simps)
  have "ilog2 a + 1 = - int (L - 1)" using e L by simp
  with hi have "a < pow2 (ilog2 a + 1)" by (simp only: pow2_neg_nat)
  moreover from lo have "pow2 (ilog2 a) \<le> a" by (simp only: e pow2_neg_nat)
  ultimately show ?thesis by simp
qed

lemma round_even_near: "\<bar>of_int (round_even x) - x\<bar> \<le> 1 / 2"
proof -
  have "of_int \<lfloor>x\<rfloor> \<le> x" "x < of_int \<lfloor>x\<rfloor> + 1" by linarith+
  then show ?thesis
    by (auto simp: round_even_def Let_def abs_le_iff)
qed

lemma pow2_strict_mono: "a < b \<Longrightarrow> pow2 a < pow2 b"
  by (simp add: pow2_powi power_int_strict_increasing)

lemma pow2_le_cancel: "pow2 a \<le> pow2 b \<Longrightarrow> a \<le> b"
  using pow2_strict_mono [of b a] by (cases "a \<le> b") simp_all

lemma pow2_less_cancel: "pow2 a < pow2 b \<Longrightarrow> a < b"
  using pow2_mono [of b a] by (cases "a < b") simp_all

lemma round_to_near: "\<bar>round_to e a - a\<bar> \<le> pow2 (e - 53)"
proof -
  define u where "u = pow2 (e - 52)"
  have u: "0 < u" by (simp add: u_def pow2_pos)
  have "round_to e a - a = (of_int (round_even (a / u)) - a / u) * u"
    using u by (simp add: round_to_def u_def [symmetric] algebra_simps)
  then have "\<bar>round_to e a - a\<bar> = \<bar>of_int (round_even (a / u)) - a / u\<bar> * u"
    using u by (simp add: abs_mult)
  also have "\<dots> \<le> (1 / 2) * u"
    using u round_even_near [of "a / u"] by (intro mult_right_mono) simp_all
  also have "\<dots> = pow2 (e - 53)"
    using pow2_half [of "e - 52"] by (simp add: u_def)
  finally show ?thesis .
qed

lemma fl_near:
  assumes lo: "pow2 (- 1022) \<le> \<bar>q\<bar>" and hi: "\<bar>q\<bar> \<le> pow2 1023"
  shows "\<exists>r. fl q = Fin r \<and> \<bar>r - q\<bar> \<le> \<bar>q\<bar> * pow2 (- 53)"
proof -
  define a where "a = \<bar>q\<bar>"
  define e where "e = ilog2 a"
  define r where "r = round_to e a"
  from lo pow2_pos [of "- 1022"] have a: "0 < a" by (simp add: a_def)
  then have q: "q \<noteq> 0" by (auto simp: a_def)
  from ilog2_bounds [OF a] have b: "pow2 e \<le> a" "a < pow2 (e + 1)" by (simp_all add: e_def)
  from lo b(2) have "pow2 (- 1022) < pow2 (e + 1)" by (simp add: a_def)
  then have e_lo: "- 1022 \<le> e" using pow2_less_cancel [of "- 1022" "e + 1"] by simp
  from hi b(1) have "pow2 e \<le> pow2 1023" by (simp add: a_def)
  then have e_hi: "e \<le> 1023" by (rule pow2_le_cancel)
  have near: "\<bar>r - a\<bar> \<le> pow2 (e - 53)" unfolding r_def by (rule round_to_near)
  have "pow2 (e - 53) = pow2 e * pow2 (- 53)" using pow2_add [of e "- 53"] by simp
  also have "\<dots> \<le> a * pow2 (- 53)"
    using b(1) pow2_pos [of "- 53"] by (intro mult_right_mono) simp_all
  finally have rel: "pow2 (e - 53) \<le> a * pow2 (- 53)" .
  have "pow2 (e - 53) \<le> pow2 1022" using e_hi by (intro pow2_mono) simp
  also have "\<dots> = pow2 1023 / 2" using pow2_half [of 1023] by simp
  finally have "pow2 (e - 53) \<le> pow2 1023 / 2" .
  with near hi have "r \<le> pow2 1023 + pow2 1023 / 2" by (simp add: a_def abs_le_iff) linarith
  also have "\<dots> < pow2 1023 * 2" using pow2_pos [of 1023] by simp
  also have "\<dots> = pow2 1024" using pow2_half [of 1024] by simp
  finally have no_ovf: "\<not> pow2 1024 \<le> r" by simp
  have flq: "fl q = Fin (if q < 0 then - r else r)"
    using q e_lo no_ovf
    by (simp add: fl_def Let_def a_def [symmetric] e_def [symmetric] r_def [symmetric] max_def)
  have "\<bar>(if q < 0 then - r else r) - q\<bar> = \<bar>r - a\<bar>"
    by (auto simp: a_def)
  with near rel flq show ?thesis by (auto simp: a_def)
qed

section \<open>The progress of the tracker\<close>

lemma pow2_numerals:
  "pow2 (- 53) = 1 / 9007199254740992" "pow2 (- 54) = 1 / 18014398509481984"
  "pow2 44 = 17592186044416" "pow2 52 = 4503599627370496"
  by (simp_all add: pow2_def)

lemma progress_zero:
  assumes "t \<noteq> 0"
  shows "progress (Fin 0) (Fin t) = Fin 0"
proof -
  have "\<lfloor>1 / 2 :: rat\<rfloor> = 0" by (rule floor_unique) simp_all
  with assms show ?thesis by (simp add: progress_def fl_def)
qed

lemma progress_near_nonzero:
  fixes c t :: int
  assumes t: "1 \<le> t" "t \<le> 2 ^ 53" and c: "c \<noteq> 0" "\<bar>c\<bar> \<le> 2 ^ 44"
  shows "\<exists>p. progress (Fin (of_int c)) (Fin (of_int t)) = Fin (of_int p) \<and>
             \<bar>of_int p - 100 * of_int c / of_int t\<bar> \<le> (1 / 2 :: rat)"
proof -
  define q :: rat where "q = of_int c / of_int t"
  define eps :: rat where "eps = pow2 (- 53)"
  have eps: "eps = 1 / 9007199254740992" by (simp add: eps_def pow2_numerals)
  have tpos: "(0::rat) < of_int t" using t by simp
  have t_hi: "(of_int t :: rat) \<le> 9007199254740992"
  proof -
    have "(of_int t :: rat) \<le> of_int (2 ^ 53)" using t(2) by (simp only: of_int_le_iff)
    then show ?thesis by simp
  qed
  have c_lo: "(1::rat) \<le> \<bar>of_int c\<bar>"
  proof -
    from c(1) have "1 \<le> \<bar>c\<bar>" by simp
    then have "(of_int 1 :: rat) \<le> of_int \<bar>c\<bar>" by (simp only: of_int_le_iff)
    then show ?thesis by simp
  qed
  have c_hi: "\<bar>of_int c :: rat\<bar> \<le> 17592186044416"
  proof -
    have "(of_int \<bar>c\<bar> :: rat) \<le> of_int (2 ^ 44)" using c(2) by (simp only: of_int_le_iff)
    then show ?thesis by simp
  qed
  have aq: "\<bar>q\<bar> = \<bar>of_int c\<bar> / of_int t" using tpos by (simp add: q_def)
  have q_lo: "eps \<le> \<bar>q\<bar>"
  proof -
    have "eps * of_int t \<le> 1" using t_hi tpos by (simp add: eps)
    also have "\<dots> \<le> \<bar>of_int c\<bar>" by (rule c_lo)
    finally show ?thesis using tpos by (simp add: aq field_simps)
  qed
  have q_hi: "\<bar>q\<bar> \<le> 17592186044416"
  proof -
    have "\<bar>of_int c :: rat\<bar> \<le> 17592186044416 * 1" using c_hi by simp
    also have "\<dots> \<le> 17592186044416 * of_int t" using t(1) by (intro mult_left_mono) simp_all
    finally show ?thesis using tpos by (simp add: aq field_simps)
  qed
  have "pow2 (- 1022) \<le> pow2 (- 53)" by (intro pow2_mono) simp
  with q_lo have n1: "pow2 (- 1022) \<le> \<bar>q\<bar>" by (simp add: eps_def)
  have "pow2 44 \<le> pow2 1023" by (intro pow2_mono) simp
  with q_hi have n2: "\<bar>q\<bar> \<le> pow2 1023" by (simp add: pow2_numerals)
  from fl_near [OF n1 n2] obtain q' where q': "fl q = Fin q'" "\<bar>q' - q\<bar> \<le> \<bar>q\<bar> * eps"
    by (auto simp: eps_def)
  define z where "z = q' * 100"
  have q'_hi: "\<bar>q'\<bar> \<le> \<bar>q\<bar> + \<bar>q\<bar> * eps" using q'(2) by (simp add: abs_le_iff) linarith
  have q'_lo: "\<bar>q\<bar> - \<bar>q\<bar> * eps \<le> \<bar>q'\<bar>" using q'(2) by (simp add: abs_le_iff) linarith
  have "\<bar>q\<bar> * eps \<le> \<bar>q\<bar> * (1 / 2)" by (intro mult_left_mono) (simp_all add: eps)
  with q'_lo q'_hi have q'_half: "\<bar>q\<bar> / 2 \<le> \<bar>q'\<bar>" and q'_twice: "\<bar>q'\<bar> \<le> 2 * \<bar>q\<bar>" by simp_all
  have az: "\<bar>z\<bar> = 100 * \<bar>q'\<bar>" by (simp add: z_def abs_mult)
  have "pow2 (- 1022) \<le> pow2 (- 54)" by (intro pow2_mono) simp
  also have "\<dots> = eps / 2" by (simp add: eps pow2_numerals)
  also have "\<dots> \<le> \<bar>q\<bar> / 2" using q_lo by simp
  also have "\<dots> \<le> \<bar>q'\<bar>" by (rule q'_half)
  also have "\<dots> \<le> \<bar>z\<bar>" by (simp add: az)
  finally have m1: "pow2 (- 1022) \<le> \<bar>z\<bar>" .
  have "\<bar>z\<bar> \<le> 200 * \<bar>q\<bar>" using q'_twice by (simp add: az)
  also have "\<dots> \<le> pow2 52" using q_hi by (simp add: pow2_numerals)
  also have "\<dots> \<le> pow2 1023" by (intro pow2_mono) simp
  finally have m2: "\<bar>z\<bar> \<le> pow2 1023" .
  from fl_near [OF m1 m2] obtain y where y: "fl z = Fin y" "\<bar>y - z\<bar> \<le> \<bar>z\<bar> * eps"
    by (auto simp: eps_def)
  define p where "p = \<lfloor>y + 1 / 2\<rfloor>"
  have t0: "(of_int t :: rat) \<noteq> 0" using tpos by simp
  have prog: "progress (Fin (of_int c)) (Fin (of_int t)) = Fin (of_int p)"
    using t0 q'(1) y(1) by (simp add: progress_def q_def [symmetric] z_def [symmetric] p_def)
  define x where "x = 100 * q"
  have "of_int p \<le> y + 1 / 2" "y + 1 / 2 < of_int p + 1"
    unfolding p_def by linarith+
  then have py: "\<bar>of_int p - y\<bar> \<le> 1 / 2" by linarith
  have "\<bar>z\<bar> * eps \<le> (100 * (\<bar>q\<bar> + \<bar>q\<bar> * eps)) * eps"
    using q'_hi by (intro mult_right_mono) (simp_all add: az eps)
  with y(2) have yz: "\<bar>y - z\<bar> \<le> (100 * (\<bar>q\<bar> + \<bar>q\<bar> * eps)) * eps" by simp
  have zx: "\<bar>z - x\<bar> \<le> 100 * (\<bar>q\<bar> * eps)"
  proof -
    have "z - x = 100 * (q' - q)" by (simp add: z_def x_def)
    then have "\<bar>z - x\<bar> = \<bar>100\<bar> * \<bar>q' - q\<bar>" by (simp only: abs_mult)
    then have "\<bar>z - x\<bar> = 100 * \<bar>q' - q\<bar>" by simp
    with q'(2) show ?thesis by simp
  qed
  define d where "d = \<bar>q\<bar> * (100 * eps * (2 + eps))"
  have "\<bar>of_int p - x\<bar> \<le> \<bar>of_int p - y\<bar> + \<bar>y - z\<bar> + \<bar>z - x\<bar>" by simp
  also have "\<dots> \<le> 1 / 2 + (100 * (\<bar>q\<bar> + \<bar>q\<bar> * eps)) * eps + 100 * (\<bar>q\<bar> * eps)"
    using py yz zx by simp
  also have "\<dots> = 1 / 2 + d" by (simp add: d_def algebra_simps)
  finally have px: "\<bar>of_int p - x\<bar> \<le> 1 / 2 + d" .
  define N where "N = 2 * p * t - 200 * c"
  have Nx: "of_int N = 2 * of_int t * (of_int p - x)"
    using t0 by (simp add: N_def x_def q_def field_simps)
  have "\<bar>of_int N :: rat\<bar> = 2 * of_int t * \<bar>of_int p - x\<bar>"
    using tpos by (simp add: Nx abs_mult)
  also have "\<dots> \<le> 2 * of_int t * (1 / 2 + d)"
    using tpos px by (intro mult_left_mono) simp_all
  also have "\<dots> = of_int t + \<bar>of_int c\<bar> * (200 * eps * (2 + eps))"
    using t0 by (simp add: d_def aq field_simps)
  also have "\<dots> < of_int t + 1"
  proof -
    have "\<bar>of_int c :: rat\<bar> * (200 * eps * (2 + eps)) \<le> 17592186044416 * (200 * eps * (2 + eps))"
      using c_hi by (intro mult_right_mono) (simp_all add: eps)
    also have "\<dots> < 1" by (simp add: eps)
    finally show ?thesis by simp
  qed
  finally have "(of_int \<bar>N\<bar> :: rat) < of_int (t + 1)" by simp
  then have "\<bar>N\<bar> < t + 1" by (simp only: of_int_less_iff)
  then have "\<bar>N\<bar> \<le> t" by simp
  then have "(of_int \<bar>N\<bar> :: rat) \<le> of_int t" by (simp only: of_int_le_iff)
  then have "2 * of_int t * \<bar>of_int p - x\<bar> \<le> of_int t * 1"
    using tpos by (simp add: Nx abs_mult)
  then have "\<bar>of_int p - x\<bar> \<le> 1 / 2" using tpos by (simp add: field_simps)
  with prog show ?thesis by (auto simp: x_def q_def)
qed

lemma progress_near:
  fixes c t :: int
  assumes "1 \<le> t" "t \<le> 2 ^ 53" "\<bar>c\<bar> \<le> 2 ^ 44"
  shows "\<exists>p. progress (Fin (of_int c)) (Fin (of_int t)) = Fin (of_int p) \<and>
             \<bar>of_int p - 100 * of_int c / of_int t\<bar> \<le> (1 / 2 :: rat)"
proof (cases "c = 0")
  case True
  from assms(1) have "(of_int t :: rat) \<noteq> 0" by simp
  then have "progress (Fin (of_int c)) (Fin (of_int t)) = Fin (of_int 0)"
    using progress_zero [of "of_int t"] True by simp
  then show ?thesis using True by (intro exI [of _ 0]) simp
next
  case False
  with assms show ?thesis by (intro progress_near_nonzero)
qed

lemma near_cases:
  fixes x :: rat and p :: int
  assumes "\<bar>of_int p - x\<bar> \<le> 1 / 2"
  shows "p = nearest_int x \<or> (p = nearest_int x - 1 \<and> x - of_int \<lfloor>x\<rfloor> = 1 / 2)"
proof -
  define n where "n = nearest_int x"
  have n: "of_int n \<le> x + 1 / 2" "x + 1 / 2 < of_int n + 1"
    unfolding n_def nearest_int_def by linarith+
  from assms have p: "x - 1 / 2 \<le> of_int p" "of_int p \<le> x + 1 / 2" by linarith+
  from p(2) n(2) have "(of_int p :: rat) < of_int (n + 1)" by simp
  then have "p < n + 1" by (simp only: of_int_less_iff)
  then have le: "p \<le> n" by simp
  from p(1) n(1) have "(of_int (n - 1) :: rat) \<le> of_int p" by simp
  then have ge: "n - 1 \<le> p" by (simp only: of_int_le_iff)
  show ?thesis
  proof (cases "p = n")
    case True
    then show ?thesis by (simp add: n_def)
  next
    case False
    with le ge have pn: "p = n - 1" by simp
    with p(1) n(1) have tie: "x + 1 / 2 = of_int n" by simp
    then have "x = of_int (n - 1) + 1 / 2" by simp
    then have "\<lfloor>x\<rfloor> = n - 1" by (intro floor_unique) simp_all
    with tie pn show ?thesis by (simp add: n_def)
  qed
qed

lemma marker_class_cases:
  "(num_less (Fin (of_nat i)) cs \<longrightarrow> marker_class i cs = Completed) \<and>
   (num_eq (Fin (of_nat i)) cs \<longrightarrow> marker_class i cs = Current) \<and>
   (num_less cs (Fin (of_nat i)) \<longrightarrow> marker_class i cs = Pending)"
  by (cases cs) (auto simp: marker_class_def)

lemma tracker_markers:
  assumes "labels props = Some ls" "ls \<noteq> []"
  shows "top_row (ProgressTracker props) =
           Markers (map (render_marker (currentStep props)) (enumerate 0 ls))"
  using assms by (simp add: ProgressTracker_def Let_def)

lemma tracker_fallback:
  assumes "labels props = None \<or> labels props = Some []"
  shows "top_row (ProgressTracker props) =
           Spans [Text (js ''Start''), Percent (progress (currentStep props) (totalSteps props)),
                  Text (js ''Complete'')]"
  using assms by (auto simp: ProgressTracker_def Let_def)

lemma progress_2_4: "progress (Fin 2) (Fin 4) = Fin 50"
  by (simp add: progress_def fl_eval)

lemma progress_23_40: "progress (Fin 23) (Fin 40) = Fin 57"
  by (simp add: progress_def fl_eval)

lemma nearest_23_40: "nearest_int (100 * 23 / 40) = 58" "nearest_int (115 / 2) = 58"
  by (simp_all add: nearest_int_def floor_rat_numeral)

lemma nearest_tie:
  fixes x :: rat
  assumes "x - of_int \<lfloor>x\<rfloor> = 1 / 2"
  shows "of_int (nearest_int x) = x + 1 / 2"
proof -
  from assms have "x + 1 / 2 = of_int (\<lfloor>x\<rfloor> + 1)" by simp
  then have "\<lfloor>x + 1 / 2\<rfloor> = \<lfloor>x\<rfloor> + 1" by (simp only: floor_of_int)
  with assms show ?thesis by (simp add: nearest_int_def)
qed

lemma progress_tie_direction:
  fixes c t :: int
  assumes "1 \<le> t" "t \<le> 2 ^ 53" "\<bar>c\<bar> \<le> 2 ^ 44"
  shows "\<exists>y p. fmul (fdiv (Fin (of_int c)) (Fin (of_int t))) (Fin 100) = Fin y \<and>
           progress (Fin (of_int c)) (Fin (of_int t)) = Fin (of_int p) \<and>
           p = \<lfloor>y + 1 / 2\<rfloor> \<and>
           \<bar>of_int p - 100 * of_int c / of_int t\<bar> \<le> (1 / 2 :: rat) \<and>
           p = (if 100 * of_int c / of_int t - of_int \<lfloor>100 * of_int c / of_int t :: rat\<rfloor> = (1 / 2 :: rat)
                   \<and> y < 100 * of_int c / of_int t
                then nearest_int (100 * of_int c / of_int t) - 1
                else nearest_int (100 * of_int c / of_int t))"
proof -
  define x :: rat where "x = 100 * of_int c / of_int t"
  define n where "n = nearest_int x"
  from progress_near [OF assms] obtain p
    where p: "progress (Fin (of_int c)) (Fin (of_int t)) = Fin (of_int p)"
      and px: "\<bar>of_int p - x\<bar> \<le> 1 / 2"
    unfolding x_def by blast
  from p obtain y where y: "fmul (fdiv (Fin (of_int c)) (Fin (of_int t))) (Fin 100) = Fin y"
      and py: "p = \<lfloor>y + 1 / 2\<rfloor>"
    by (cases "fmul (fdiv (Fin (of_int c)) (Fin (of_int t))) (Fin 100)")
       (simp_all add: progress_def)
  have fy: "of_int p \<le> y + 1 / 2" "y + 1 / 2 < of_int p + 1"
    unfolding py by linarith+
  from near_cases [OF px]
  have pn: "p = n \<or> (p = n - 1 \<and> x - of_int \<lfloor>x\<rfloor> = 1 / 2)" by (simp add: n_def)
  have "p = (if x - of_int \<lfloor>x\<rfloor> = 1 / 2 \<and> y < x then n - 1 else n)"
  proof (cases "x - of_int \<lfloor>x\<rfloor> = 1 / 2")
    case tie: True
    then have nx: "of_int n = x + 1 / 2" unfolding n_def by (rule nearest_tie)
    show ?thesis
    proof (cases "y < x")
      case True
      with fy(1) nx have "(of_int p :: rat) < of_int n" by simp
      then have "p < n" by (simp only: of_int_less_iff)
      with pn tie True show ?thesis by simp
    next
      case False
      with fy(2) nx have "(of_int n :: rat) < of_int (p + 1)" by simp
      then have "n < p + 1" by (simp only: of_int_less_iff)
      with pn False show ?thesis by auto
    qed
  next
    case False
    with pn show ?thesis by simp
  qed
  with y p py px show ?thesis unfolding x_def n_def by blast
qed

lemma product_23_40:
  "fmul (fdiv (Fin 23) (Fin 40)) (Fin 100) = Fin (8092405580431359 / 140737488355328)"
  by (simp add: fl_eval)

lemma product_1_8: "fmul (fdiv (Fin 1) (Fin 8)) (Fin 100) = Fin (25 / 2)"
  by (simp add: fl_eval)

lemma progress_1_8: "progress (Fin 1) (Fin 8) = Fin 13"
  by (simp add: progress_def fl_eval)

lemma nearest_1_8: "nearest_int (100 * 1 / 8) = 13" "nearest_int (25 / 2) = 13"
  by (simp_all add: nearest_int_def floor_rat_numeral)

text \<open>
  Claim C8, as the code has it. For integer steps with \<open>1 \<le> totalSteps \<le> 2^53\<close> and
  \<open>|currentStep| \<le> 2^44\<close> the double product \<open>(currentStep / totalSteps) * 100\<close> is
  finite and the computed progress is that product rounded to the nearest integer, a tie
  going up. It is within one half of \<open>100 * currentStep / totalSteps\<close> and equals that
  exact value rounded to the nearest integer, a tie going up, in every case but one: when
  the exact value lies halfway between two integers and the double product falls below
  it, the progress is the integer below. Step 2 of 4 gives 50 and step 1 of 8 gives 13.
  The bar always shows the progress. With a non-empty label list there is one marker per
  label, numbered from one, which is completed when its index is less than
  \<open>currentStep\<close>, current when equal and pending when greater, and no percentage is
  shown; without labels the row is \<open>Start\<close>, the percentage, \<open>Complete\<close>.
\<close>

theorem tracker_progress_markers:
  fixes c t :: int
  shows
  "(1 \<le> t \<and> t \<le> 2 ^ 53 \<and> \<bar>c\<bar> \<le> 2 ^ 44 \<longrightarrow>
      (\<exists>y p. fmul (fdiv (Fin (of_int c)) (Fin (of_int t))) (Fin 100) = Fin y \<and>
           progress (Fin (of_int c)) (Fin (of_int t)) = Fin (of_int p) \<and>
           p = \<lfloor>y + 1 / 2\<rfloor> \<and>
           \<bar>of_int p - 100 * of_int c / of_int t\<bar> \<le> (1 / 2 :: rat) \<and>
           p = (if 100 * of_int c / of_int t - of_int \<lfloor>100 * of_int c / of_int t :: rat\<rfloor> = (1 / 2 :: rat)
                   \<and> y < 100 * of_int c / of_int t
                then nearest_int (100 * of_int c / of_int t) - 1
                else nearest_int (100 * of_int c / of_int t)))) \<and>
   progress (Fin 2) (Fin 4) = Fin 50 \<and>
   progress (Fin 1) (Fin 8) = Fin 13 \<and>
   bar_value (ProgressTracker props) = progress (currentStep props) (totalSteps props) \<and>
   (labels props = Some ls \<and> ls \<noteq> [] \<longrightarrow>
      (\<exists>ms. top_row (ProgressTracker props) = Markers ms \<and> length ms = length ls \<and>
         (\<forall>i<length ls.
            m_number (ms ! i) = i + 1 \<and> m_label (ms ! i) = ls ! i \<and>
            (num_less (Fin (of_nat i)) (currentStep props) \<longrightarrow> m_style (ms ! i) = Completed) \<and>
            (num_eq (Fin (of_nat i)) (currentStep props) \<longrightarrow> m_style (ms ! i) = Current) \<and>
            (num_less (currentStep props) (Fin (of_nat i)) \<longrightarrow> m_style (ms ! i) = Pending)))) \<and>
   (labels props = None \<or> labels props = Some [] \<longrightarrow>
      top_row (ProgressTracker props) =
        Spans [Text (js ''Start''), Percent (progress (currentStep props) (totalSteps props)),
               Text (js ''Complete'')])"
proof (intro conjI impI)
  assume "1 \<le> t \<and> t \<le> 2 ^ 53 \<and> \<bar>c\<bar> \<le> 2 ^ 44"
  then show "\<exists>y p. fmul (fdiv (Fin (of_int c)) (Fin (of_int t))) (Fin 100) = Fin y \<and>
           progress (Fin (of_int c)) (Fin (of_int t)) = Fin (of_int p) \<and>
           p = \<lfloor>y + 1 / 2\<rfloor> \<and>
           \<bar>of_int p - 100 * of_int c / of_int t\<bar> \<le> (1 / 2 :: rat) \<and>
           p = (if 100 * of_int c / of_int t - of_int \<lfloor>100 * of_int c / of_int t :: rat\<rfloor> = (1 / 2 :: rat)
                   \<and> y < 100 * of_int c / of_int t
                then nearest_int (100 * of_int c / of_int t) - 1
                else nearest_int (100 * of_int c / of_int t))"
    by (intro progress_tie_direction) simp_all
next
  show "progress (Fin 2) (Fin 4) = Fin 50" by (rule progress_2_4)
  show "progress (Fin 1) (Fin 8) = Fin 13" by (rule progress_1_8)
  show "bar_value (ProgressTracker props) = progress (currentStep props) (totalSteps props)"
    by (simp add: ProgressTracker_def Let_def)
next
  assume a: "labels props = Some ls \<and> ls \<noteq> []"
  let ?ms = "map (render_marker (currentStep props)) (enumerate 0 ls)"
  have "top_row (ProgressTracker props) = Markers ?ms"
    using a by (intro tracker_markers) simp_all
  moreover have "length ?ms = length ls" by simp
  moreover have "\<forall>i<length ls.
            m_number (?ms ! i) = i + 1 \<and> m_label (?ms ! i) = ls ! i \<and>
            (num_less (Fin (of_nat i)) (currentStep props) \<longrightarrow> m_style (?ms ! i) = Completed) \<and>
            (num_eq (Fin (of_nat i)) (currentStep props) \<longrightarrow> m_style (?ms ! i) = Current) \<and>
            (num_less (currentStep props) (Fin (of_nat i)) \<longrightarrow> m_style (?ms ! i) = Pending)"
    using marker_class_cases by (simp add: render_marker_def nth_enumerate_eq)
  ultimately show "\<exists>ms. top_row (ProgressTracker props) = Markers ms \<and> length ms = length ls \<and>
         (\<forall>i<length ls.
            m_number (ms ! i) = i + 1 \<and> m_label (ms ! i) = ls ! i \<and>
            (num_less (Fin (of_nat i)) (currentStep props) \<longrightarrow> m_style (ms ! i) = Completed) \<and>
            (num_eq (Fin (of_nat i)) (currentStep props) \<longrightarrow> m_style (ms ! i) = Current) \<and>
            (num_less (currentStep props) (Fin (of_nat i)) \<longrightarrow> m_style (ms ! i) = Pending))"
    by blast
next
  assume "labels props = None \<or> labels props = Some []"
  then show "top_row (ProgressTracker props) =
        Spans [Text (js ''Start''), Percent (progress (currentStep props) (totalSteps props)),
               Text (js ''Complete'')]"
    by (rule tracker_fallback)
qed

theorem tracker_progress_markers_witness:
  "(\<exists>p. progress (Fin 23) (Fin 40) = Fin (of_int p) \<and> p = nearest_int (100 * 23 / 40) - 1) \<and>
   (\<exists>p. progress (Fin 1) (Fin 8) = Fin (of_int p) \<and> p = nearest_int (100 * 1 / 8)) \<and>
   (\<exists>ms. top_row (ProgressTracker sampleProps) = Markers ms \<and>
         map m_style ms = [Completed, Completed, Current, Pending]) \<and>
   top_row (ProgressTracker (sampleProps\<lparr>labels := None\<rparr>)) =
     Spans [Text (js ''Start''), Percent (Fin 50), Text (js ''Complete'')]"
proof -
  let ?L = "map js [''A'', ''B'', ''C'', ''D'']"
  have "(1::int) \<le> 40 \<and> (40::int) \<le> 2 ^ 53 \<and> \<bar>23::int\<bar> \<le> 2 ^ 44" by simp
  with tracker_progress_markers [of 40 23 sampleProps ?L]
  obtain y p where yp: "fmul (fdiv (Fin (of_int 23)) (Fin (of_int 40))) (Fin 100) = Fin y"
    "progress (Fin (of_int 23)) (Fin (of_int 40)) = Fin (of_int p)"
    "p = (if 100 * of_int 23 / of_int 40 - of_int \<lfloor>100 * of_int 23 / of_int 40 :: rat\<rfloor> = (1 / 2 :: rat)
             \<and> y < 100 * of_int 23 / of_int 40
          then nearest_int (100 * of_int 23 / of_int 40) - 1
          else nearest_int (100 * of_int 23 / of_int 40))"
    by blast
  have y: "y = 8092405580431359 / 140737488355328"
    using yp(1) unfolding of_int_numeral product_23_40 by simp
  from yp(3) have "p = nearest_int (100 * 23 / 40) - 1"
    unfolding y by (simp add: floor_rat_numeral)
  with yp(2) have 1: "\<exists>p. progress (Fin 23) (Fin 40) = Fin (of_int p) \<and> p = nearest_int (100 * 23 / 40) - 1"
    by auto
  have "(1::int) \<le> 8 \<and> (8::int) \<le> 2 ^ 53 \<and> \<bar>1::int\<bar> \<le> 2 ^ 44" by simp
  with tracker_progress_markers [of 8 1 sampleProps ?L]
  obtain y' p' where yp': "fmul (fdiv (Fin (of_int 1)) (Fin (of_int 8))) (Fin 100) = Fin y'"
    "progress (Fin (of_int 1)) (Fin (of_int 8)) = Fin (of_int p')"
    "p' = (if 100 * of_int 1 / of_int 8 - of_int \<lfloor>100 * of_int 1 / of_int 8 :: rat\<rfloor> = (1 / 2 :: rat)
             \<and> y' < 100 * of_int 1 / of_int 8
          then nearest_int (100 * of_int 1 / of_int 8) - 1
          else nearest_int (100 * of_int 1 / of_int 8))"
    by blast
  have y': "y' = 25 / 2"
    using yp'(1) unfolding of_int_1 of_int_numeral product_1_8 by simp
  from yp'(3) have "p' = nearest_int (100 * 1 / 8)"
    unfolding y' by (simp add: floor_rat_numeral)
  with yp'(2) have tie_up: "\<exists>p. progress (Fin 1) (Fin 8) = Fin (of_int p) \<and> p = nearest_int (100 * 1 / 8)"
    by auto
  have "labels sampleProps = Some ?L \<and> ?L \<noteq> []" by (simp add: sampleProps_def)
  with tracker_progress_markers [of 40 23 sampleProps ?L]
  obtain ms where ms: "top_row (ProgressTracker sampleProps) = Markers ms" "length ms = length ?L"
    "\<forall>i<length ?L.
       m_number (ms ! i) = i + 1 \<and> m_label (ms ! i) = ?L ! i \<and>
       (num_less (Fin (of_nat i)) (currentStep sampleProps) \<longrightarrow> m_style (ms ! i) = Completed) \<and>
       (num_eq (Fin (of_nat i)) (currentStep sampleProps) \<longrightarrow> m_style (ms ! i) = Current) \<and>
       (num_less (currentStep sampleProps) (Fin (of_nat i)) \<longrightarrow> m_style (ms ! i) = Pending)"
    by blast
  have cs: "currentStep sampleProps = Fin 2" by (simp add: sampleProps_def)
  from ms(3) [rule_format, of 0] have s0: "m_style (ms ! 0) = Completed" by (simp add: cs)
  from ms(3) [rule_format, of 1] have s1: "m_style (ms ! 1) = Completed" by (simp add: cs)
  from ms(3) [rule_format, of 2] have s2: "m_style (ms ! 2) = Current" by (simp add: cs)
  from ms(3) [rule_format, of 3] have s3: "m_style (ms ! 3) = Pending" by (simp add: cs)
  from ms(2) have len: "length ms = 4" by simp
  then obtain a b c d where "ms = [a, b, c, d]"
    by (cases ms; cases "tl ms"; cases "tl (tl ms)"; cases "tl (tl (tl ms))") auto
  with s0 s1 s2 s3 have st: "map m_style ms = [Completed, Completed, Current, Pending]" by simp
  have 2: "\<exists>ms. top_row (ProgressTracker sampleProps) = Markers ms \<and>
         map m_style ms = [Completed, Completed, Current, Pending]"
    by (rule exI [of _ ms]) (simp only: ms(1) st)
  have "labels (sampleProps\<lparr>labels := None\<rparr>) = None \<or> labels (sampleProps\<lparr>labels := None\<rparr>) = Some []"
    by simp
  with tracker_progress_markers [of 40 23 "sampleProps\<lparr>labels := None\<rparr>" ?L]
  have "top_row (ProgressTracker (sampleProps\<lparr>labels := None\<rparr>)) =
        Spans [Text (js ''Start''),
               Percent (progress (currentStep (sampleProps\<lparr>labels := None\<rparr>))
                                 (totalSteps (sampleProps\<lparr>labels := None\<rparr>))),
               Text (js ''Complete'')]" by blast
  then have 3: "top_row (ProgressTracker (sampleProps\<lparr>labels := None\<rparr>)) =
     Spans [Text (js ''Start''), Percent (Fin 50), Text (js ''Complete'')]"
    by (simp add: sampleProps_def progress_2_4)
  from 1 tie_up 2 3 show ?thesis by (intro conjI)
qed

text \<open>
  Claim C8 as stated fails: at step 23 of 40 the exact percentage is 57.5 and its rounding
  58, which is also what \<open>Math.round(100 * 23 / 40)\<close> evaluates to, but the component
  computes \<open>Math.round((23 / 40) * 100)\<close>, where the product is the double just below
  57.5, and shows 57.
\<close>

theorem progress_tie_rounds_down:
  "bar_value (ProgressTracker \<lparr> currentStep = Fin 23, totalSteps = Fin 40, labels = None \<rparr>) = Fin 57 \<and>
   nearest_int (100 * 23 / 40) = 58 \<and>
   Math_round (fdiv (fmul (Fin 100) (Fin 23)) (Fin 40)) = Fin 58"
proof -
  have 1: "Math_round (fdiv (fmul (Fin 100) (Fin 23)) (Fin 40)) = Fin 58"
    by (simp add: fl_eval)
  have 2: "bar_value (ProgressTracker \<lparr> currentStep = Fin 23, totalSteps = Fin 40, labels = None \<rparr>) = Fin 57"
    by (simp add: ProgressTracker_def Let_def progress_23_40)
  from 1 2 nearest_23_40(1) show ?thesis by blast
qed

lemma progress_5_4: "progress (Fin 5) (Fin 4) = Fin 125"
  by (simp add: progress_def fl_eval)

text \<open>
  Claim C10, as the code has it. The percentage is not confined to 0 to 100. For integer
  steps in the range above, \<open>currentStep \<ge> totalSteps\<close> gives at least 100, and more
  than 100 once \<open>100 * currentStep / totalSteps\<close> is above 100.5; a negative
  \<open>currentStep\<close> gives at most 0, and less than 0 once that value is below -0.5.
  Step 5 of 4 gives 125.
\<close>

theorem progress_unclamped:
  fixes c t :: int
  shows
  "(1 \<le> t \<and> t \<le> 2 ^ 53 \<and> \<bar>c\<bar> \<le> 2 ^ 44 \<longrightarrow>
      (\<exists>p. progress (Fin (of_int c)) (Fin (of_int t)) = Fin (of_int p) \<and>
           (t \<le> c \<longrightarrow> 100 \<le> p) \<and> (201 * t < 200 * c \<longrightarrow> 100 < p) \<and>
           (c < 0 \<longrightarrow> p \<le> 0) \<and> (200 * c < - t \<longrightarrow> p < 0))) \<and>
   progress (Fin 5) (Fin 4) = Fin 125"
proof (intro conjI impI)
  assume a: "1 \<le> t \<and> t \<le> 2 ^ 53 \<and> \<bar>c\<bar> \<le> 2 ^ 44"
  define x :: rat where "x = 100 * of_int c / of_int t"
  from a obtain p where p: "progress (Fin (of_int c)) (Fin (of_int t)) = Fin (of_int p)"
      "\<bar>of_int p - x\<bar> \<le> 1 / 2"
    using progress_near [of t c] unfolding x_def by blast
  from a have tpos: "(0::rat) < of_int t" by simp
  from p(2) have lo: "x - 1 / 2 \<le> of_int p" and hi: "of_int p \<le> x + 1 / 2" by linarith+
  have 1: "100 \<le> p" if "t \<le> c"
  proof -
    from that have "(of_int t :: rat) \<le> of_int c" by (simp only: of_int_le_iff)
    with tpos have "100 \<le> x" by (simp add: x_def field_simps)
    with lo have "(of_int 99 :: rat) < of_int p" by simp
    then have "99 < p" by (simp only: of_int_less_iff)
    then show ?thesis by simp
  qed
  have 2: "100 < p" if "201 * t < 200 * c"
  proof -
    from that have "(of_int (201 * t) :: rat) < of_int (200 * c)" by (simp only: of_int_less_iff)
    with tpos have "201 / 2 < x" by (simp add: x_def field_simps)
    with lo have "(of_int 100 :: rat) < of_int p" by simp
    then show ?thesis by (simp only: of_int_less_iff)
  qed
  have 3: "p \<le> 0" if "c < 0"
  proof -
    from that have "(of_int c :: rat) < 0" by simp
    with tpos have "x < 0" by (simp add: x_def field_simps)
    with hi have "(of_int p :: rat) < of_int 1" by simp
    then have "p < 1" by (simp only: of_int_less_iff)
    then show ?thesis by simp
  qed
  have 4: "p < 0" if "200 * c < - t"
  proof -
    from that have "(of_int (200 * c) :: rat) < of_int (- t)" by (simp only: of_int_less_iff)
    with tpos have "x < - 1 / 2" by (simp add: x_def field_simps)
    with hi have "(of_int p :: rat) < of_int 0" by simp
    then show ?thesis by (simp only: of_int_less_iff)
  qed
  from p(1) 1 2 3 4
  show "\<exists>p. progress (Fin (of_int c)) (Fin (of_int t)) = Fin (of_int p) \<and>
           (t \<le> c \<longrightarrow> 100 \<le> p) \<and> (201 * t < 200 * c \<longrightarrow> 100 < p) \<and>
           (c < 0 \<longrightarrow> p \<le> 0) \<and> (200 * c < - t \<longrightarrow> p < 0)"
    by blast
next
  show "progress (Fin 5) (Fin 4) = Fin 125" by (rule progress_5_4)
qed

theorem progress_unclamped_witness:
  "(\<exists>p. progress (Fin 5) (Fin 4) = Fin (of_int p) \<and> 100 < p) \<and>
   (\<exists>p. progress (Fin (- 1)) (Fin 4) = Fin (of_int p) \<and> p < 0)"
proof -
  have "(1::int) \<le> 4 \<and> (4::int) \<le> 2 ^ 53 \<and> \<bar>5::int\<bar> \<le> 2 ^ 44" by simp
  with progress_unclamped [of 4 5]
  obtain p where "progress (Fin (of_int 5)) (Fin (of_int 4)) = Fin (of_int p)"
    "201 * 4 < 200 * (5::int) \<longrightarrow> 100 < p" by blast
  then have 1: "\<exists>p. progress (Fin 5) (Fin 4) = Fin (of_int p) \<and> 100 < p" by auto
  have "(1::int) \<le> 4 \<and> (4::int) \<le> 2 ^ 53 \<and> \<bar>- 1::int\<bar> \<le> 2 ^ 44" by simp
  with progress_unclamped [of 4 "- 1"]
  obtain p' where "progress (Fin (of_int (- 1))) (Fin (of_int 4)) = Fin (of_int p')"
    "200 * (- 1) < - (4::int) \<longrightarrow> p' < 0" by blast
  then have 2: "\<exists>p. progress (Fin (- 1)) (Fin 4) = Fin (of_int p) \<and> p < 0" by auto
  from 1 2 show ?thesis by blast
qed

text \<open>
  Claim C10 as stated fails: step 1001 of 1000 is greater than the total and gives 100,
  and step -1 of 1000 gives 0.
\<close>

theorem progress_stays_at_100:
  "num_less (Fin 1000) (Fin 1001) \<and> progress (Fin 1001) (Fin 1000) = Fin 100 \<and>
   num_less (Fin (- 1)) (Fin 0) \<and> progress (Fin (- 1)) (Fin 1000) = Fin 0"
  by (simp add: progress_def fl_eval)


end
